theory Spec2Isabelle
  imports Main "HOL-Library.AList"
begin

section \<open>Python string operations used by the agent\<close>

text \<open>
  Python \<open>str\<close> values are modelled as \<^typ>\<open>string\<close>. The operations below are the
  ASCII readings of the Python methods the source calls: \<open>lower\<close> maps \<open>A..Z\<close> to
  \<open>a..z\<close>; white space is the set \<open>str.strip\<close> and the regular expression class
  \<open>\s\<close> remove among ASCII characters (codes 9 to 13, 28 to 32); a digit is \<open>0..9\<close>.
\<close>

definition lower_char :: "char \<Rightarrow> char" where
  "lower_char c =
     (if (65::nat) \<le> of_char c \<and> (of_char c :: nat) \<le> 90
      then char_of ((of_char c :: nat) + 32) else c)"

definition lower :: "string \<Rightarrow> string" where
  "lower s = map lower_char s"

definition is_space :: "char \<Rightarrow> bool" where
  "is_space c = (((9::nat) \<le> of_char c \<and> (of_char c :: nat) \<le> 13)
      \<or> ((28::nat) \<le> of_char c \<and> (of_char c :: nat) \<le> 32))"

definition is_digit :: "char \<Rightarrow> bool" where
  "is_digit c = ((48::nat) \<le> of_char c \<and> (of_char c :: nat) \<le> 57)"

definition lstrip :: "string \<Rightarrow> string" where
  "lstrip s = dropWhile is_space s"

definition strip :: "string \<Rightarrow> string" where
  "strip s = rev (dropWhile is_space (rev (dropWhile is_space s)))"

text \<open>\<open>p in s\<close> on strings: \<open>p\<close> occurs in \<open>s\<close> as a contiguous block.\<close>

fun str_in :: "string \<Rightarrow> string \<Rightarrow> bool" where
  "str_in p [] = (p = [])"
| "str_in p (c # cs) = (take (length p) (c # cs) = p \<or> str_in p cs)"

text \<open>\<open>s.split(c)\<close> for a one-character separator: always at least one piece.\<close>

fun split_on :: "char \<Rightarrow> string \<Rightarrow> string list" where
  "split_on c [] = [[]]"
| "split_on c (x # xs) =
     (if x = c then [] # split_on c xs
      else (case split_on c xs of [] \<Rightarrow> [[x]] | w # ws \<Rightarrow> (x # w) # ws))"

text \<open>\<open>s.split(c, 1)\<close>: one piece when \<open>c\<close> is absent, else the text before and after its
  first occurrence.\<close>

definition split_first :: "char \<Rightarrow> string \<Rightarrow> string list" where
  "split_first c s =
     (if c \<in> set s then [takeWhile (\<lambda>x. x \<noteq> c) s, tl (dropWhile (\<lambda>x. x \<noteq> c) s)] else [s])"

text \<open>\<open>sep.join(xs)\<close>.\<close>

fun join :: "string \<Rightarrow> string list \<Rightarrow> string" where
  "join sep [] = []"
| "join sep [x] = x"
| "join sep (x # y # ys) = x @ sep @ join sep (y # ys)"

text \<open>\<open>s.replace(old, new)\<close>: every non-overlapping occurrence, leftmost first; with an
  empty \<open>old\<close> Python puts \<open>new\<close> before every character and at the end.\<close>

function replace_from :: "string \<Rightarrow> string \<Rightarrow> string \<Rightarrow> string" where
  "replace_from old new s =
     (if s = [] then []
      else if old \<noteq> [] \<and> take (length old) s = old
           then new @ replace_from old new (drop (length old) s)
      else hd s # replace_from old new (tl s))"
  by pat_completeness auto
termination
  by (relation "measure (\<lambda>(old, new, s). length s)") auto

declare replace_from.simps [simp del]

definition replace :: "string \<Rightarrow> string \<Rightarrow> string \<Rightarrow> string" where
  "replace old new s =
     (if old = [] then new @ concat (map (\<lambda>c. c # new) s) else replace_from old new s)"

section \<open>PII detection\<close>

text \<open>The lexicon of \<open>detect_pii_fields\<close>, nested in \<open>pii_protection_tool\<close>
  (function_tools.py).\<close>

definition pii_patterns :: "string list" where
  "pii_patterns =
     [''email'', ''email_address'', ''e_mail'', ''e-mail'', ''email_addr'',
      ''phone'', ''phone_number'', ''telephone'', ''mobile'', ''cell'', ''contact_number'',
      ''first_name'', ''last_name'', ''full_name'', ''customer_name'', ''name'', ''given_name'',
      ''surname'',
      ''address'', ''street_address'', ''mailing_address'', ''home_address'',
      ''physical_address'',
      ''ssn'', ''social_security_number'', ''tax_id'', ''tax_id_number'', ''ssn_number'']"

text \<open>One pass of the loop body: a direct match, or some lexicon entry inside the
  lower-cased, stripped name.\<close>

definition is_pii_field :: "string \<Rightarrow> bool" where
  "is_pii_field field_name =
     (let field_lower = strip (lower field_name)
      in if field_lower \<in> set pii_patterns then True
         else list_ex (\<lambda>pattern. str_in pattern field_lower) pii_patterns)"

definition detect_pii_fields :: "string list \<Rightarrow> string set" where
  "detect_pii_fields field_names = set (filter is_pii_field field_names)"

text \<open>The lexicon and loop of \<open>AgentCoordinator._detect_pii_fields\<close>
  (agent_coordinator.py), written out from that file.\<close>

definition coord_pii_patterns :: "string list" where
  "coord_pii_patterns =
     [''email'', ''email_address'', ''e_mail'', ''e-mail'', ''email_addr'',
      ''phone'', ''phone_number'', ''telephone'', ''mobile'', ''cell'', ''contact_number'',
      ''first_name'', ''last_name'', ''full_name'', ''customer_name'', ''name'', ''given_name'',
      ''surname'',
      ''address'', ''street_address'', ''mailing_address'', ''home_address'',
      ''physical_address'',
      ''ssn'', ''social_security_number'', ''tax_id'', ''tax_id_number'', ''ssn_number'']"

definition coord_is_pii_field :: "string \<Rightarrow> bool" where
  "coord_is_pii_field field_name =
     (let field_lower = strip (lower field_name)
      in if field_lower \<in> set coord_pii_patterns then True
         else list_ex (\<lambda>pattern. str_in pattern field_lower) coord_pii_patterns)"

definition coord_detect_pii_fields :: "string list \<Rightarrow> string set" where
  "coord_detect_pii_fields field_names = set (filter coord_is_pii_field field_names)"

section \<open>Masking rules\<close>

text \<open>\<open>mask_field_value\<close> (function_tools.py). The value is the text after the colon of
  a result line, so it is a \<open>str\<close>; \<open>not value\<close> holds exactly for the empty string.\<close>

definition last4 :: "string \<Rightarrow> string" where
  "last4 digits = drop (length digits - 4) digits"

definition mask_field_value :: "string \<Rightarrow> string \<Rightarrow> string" where
  "mask_field_value field_name v =
     (if v = [] then v
      else let field_lower = lower field_name in
        if str_in ''email'' field_lower then
          (if CHR ''@'' \<in> set v \<and> length (split_on CHR ''@'' v) = 2
           then ''***@'' @ split_on CHR ''@'' v ! 1
           else ''***'')
        else if str_in ''phone'' field_lower \<or> str_in ''telephone'' field_lower then
          (let digits = filter is_digit v
           in if length digits \<ge> 4 then ''***-***-'' @ last4 digits else ''***-***-****'')
        else if str_in ''name'' field_lower then
          (if length v > 0 then replicate (min (length v) 4) CHR ''*'' else ''****'')
        else if str_in ''address'' field_lower then
          (if length v > 5 then take 2 v @ replicate (length v - 2) CHR ''*'' else ''***'')
        else if str_in ''ssn'' field_lower \<or> str_in ''social'' field_lower then
          (let digits = filter is_digit v
           in if length digits \<ge> 4 then ''***-**-'' @ last4 digits else ''***-**-****'')
        else
          (if length v > 0 then replicate (min (length v) 4) CHR ''*'' else ''****''))"

text \<open>The personal-name category of the lexicon.\<close>

definition name_patterns :: "string list" where
  "name_patterns =
     [''first_name'', ''last_name'', ''full_name'', ''customer_name'', ''name'', ''given_name'',
      ''surname'']"

section \<open>More text helpers: numbers, regular expressions, \<open>repr\<close>\<close>

definition nl :: string where
  "nl = [CHR 0x0A]"

text \<open>\<open>str(n)\<close> for a non-negative integer.\<close>

function str_of_nat :: "nat \<Rightarrow> string" where
  "str_of_nat n =
     (if n < 10 then [char_of (48 + n)] else str_of_nat (n div 10) @ [char_of (48 + n mod 10)])"
  by pat_completeness auto
termination
  by (relation "measure id") auto

declare str_of_nat.simps [simp del]

text \<open>\<open>int(x)\<close> on a run of ASCII digits.\<close>

definition int_of_digits :: "string \<Rightarrow> nat" where
  "int_of_digits ds = foldl (\<lambda>n c. 10 * n + ((of_char c :: nat) - 48)) 0 ds"

text \<open>\<open>re.findall(r'\d+', s)\<close>: the maximal runs of digits, left to right.\<close>

fun digit_runs :: "string \<Rightarrow> string \<Rightarrow> string list" where
  "digit_runs cur [] = (if cur = [] then [] else [cur])"
| "digit_runs cur (c # cs) =
     (if is_digit c then digit_runs (cur @ [c]) cs
      else (if cur = [] then [] else [cur]) @ digit_runs [] cs)"

text \<open>\<open>int\<close> refuses a decimal string of more than 4300 digits (the default of
  \<open>sys.get_int_max_str_digits()\<close>) with a \<open>ValueError\<close>; leading zeros count.\<close>

definition int_max_str_digits :: nat where
  "int_max_str_digits = 4300"

text \<open>\<open>[int(x) for x in re.findall(r'\d+', s)]\<close>: \<open>None\<close> where some \<open>int(x)\<close>
  raises.\<close>

definition findall_numbers :: "string \<Rightarrow> nat list option" where
  "findall_numbers s =
     (let runs = digit_runs [] s
      in if list_ex (\<lambda>x. length x > int_max_str_digits) runs then None
         else Some (map int_of_digits runs))"

text \<open>\<open>re.findall(q + '([^' + q + ']+)' + q, s)\<close> for a quote character \<open>q\<close>: the
  non-empty texts between a quote and the next quote, scanning on after each closing quote.\<close>

function findall_quoted :: "char \<Rightarrow> string \<Rightarrow> string list" where
  "findall_quoted q s =
     (case dropWhile (\<lambda>c. c \<noteq> q) s of
        [] \<Rightarrow> []
      | _ # rest \<Rightarrow>
          (let body = takeWhile (\<lambda>c. c \<noteq> q) rest; after = dropWhile (\<lambda>c. c \<noteq> q) rest
           in if body \<noteq> [] \<and> after \<noteq> [] then body # findall_quoted q (tl after)
              else findall_quoted q rest))"
  by pat_completeness auto
termination
proof (relation "measure (\<lambda>(q, s). length s)", goal_cases)
  case 1
  show ?case by simp
next
  case (2 q s x21 x22 x xa)
  have "length (dropWhile (\<lambda>c. c \<noteq> q) x22) \<le> length x22"
    by (rule length_dropWhile_le)
  moreover have "length (x21 # x22) \<le> length s"
    using 2(1) length_dropWhile_le [of "\<lambda>c. c \<noteq> q" s] by simp
  moreover have "xa \<noteq> []" using 2 by simp
  ultimately show ?case using 2 by (cases xa) auto
next
  case (3 q s x21 x22 x xa)
  have "length (x21 # x22) \<le> length s"
    using 3(1) length_dropWhile_le [of "\<lambda>c. c \<noteq> q" s] by simp
  then show ?case by simp
qed

declare findall_quoted.simps [simp del]

text \<open>The text after the first occurrence of \<open>p\<close> in \<open>s\<close>, if there is one.\<close>

fun after_first :: "string \<Rightarrow> string \<Rightarrow> string option" where
  "after_first p [] = (if p = [] then Some [] else None)"
| "after_first p (c # cs) =
     (if take (length p) (c # cs) = p then Some (drop (length p) (c # cs)) else after_first p cs)"

text \<open>\<open>re.search(r'COLUMNS:\s*(.+)', result)\<close>, giving group 1. After the first
  \<open>COLUMNS:\<close> the white space is skipped and the group runs to the end of the line. When only
  white space follows up to the end of the text, the expression backtracks and the group is
  the last white-space character that is not a newline; without one there is no match.\<close>

definition search_columns :: "string \<Rightarrow> string option" where
  "search_columns result =
     (case after_first ''COLUMNS:'' result of
        None \<Rightarrow> None
      | Some rest \<Rightarrow>
          (let r = dropWhile is_space rest
           in if r \<noteq> [] then Some (takeWhile (\<lambda>c. c \<noteq> CHR 0x0A) r)
              else (case dropWhile (\<lambda>c. c = CHR 0x0A) (rev (takeWhile is_space rest)) of
                      [] \<Rightarrow> None
                    | c # _ \<Rightarrow> Some [c])))"

text \<open>\<open>repr\<close> of a \<open>str\<close> (ASCII): double quotes are chosen when the text has a single
  quote and no double quote; the quote character and the backslash are escaped, tab, newline
  and carriage return are written \<open>\t\<close>, \<open>\n\<close>, \<open>\r\<close>, other control characters
  \<open>\xhh\<close>.\<close>

definition hex_digit :: "nat \<Rightarrow> char" where
  "hex_digit d = (if d < 10 then char_of (48 + d) else char_of (87 + d))"

definition repr_char :: "char \<Rightarrow> char \<Rightarrow> string" where
  "repr_char quote c =
     (if c = quote \<or> c = CHR 0x5C then [CHR 0x5C, c]
      else if c = CHR 0x09 then [CHR 0x5C, CHR ''t'']
      else if c = CHR 0x0A then [CHR 0x5C, CHR ''n'']
      else if c = CHR 0x0D then [CHR 0x5C, CHR ''r'']
      else if (of_char c :: nat) < 32 \<or> (of_char c :: nat) = 127
        then [CHR 0x5C, CHR ''x'', hex_digit ((of_char c :: nat) div 16),
              hex_digit ((of_char c :: nat) mod 16)]
      else [c])"

definition repr_str :: "string \<Rightarrow> string" where
  "repr_str s =
     (let quote = (if CHR 0x27 \<in> set s \<and> CHR 0x22 \<notin> set s then CHR 0x22 else CHR 0x27)
      in [quote] @ concat (map (repr_char quote) s) @ [quote])"

text \<open>\<open>str(cols)\<close> for a list of strings.\<close>

definition repr_list :: "string list \<Rightarrow> string" where
  "repr_list xs = ''['' @ join '', '' (map repr_str xs) @ '']''"

section \<open>The PII protection tool\<close>

text \<open>
  \<open>ast.literal_eval\<close> belongs to the Python library, not to this repository; the model takes
  it as the parameter \<open>literal_eval\<close>, which gives the list of strings the text denotes, or
  \<open>None\<close> where the call raises. Literals that are not lists of strings lie outside the
  model.
\<close>

type_synonym literal_eval = "string \<Rightarrow> string list option"

text \<open>Column-name parsing inside \<open>pii_protection_tool\<close>: the literal, else the
  single-quoted names, else the double-quoted names, else the comma-separated pieces.\<close>

definition parse_column_names :: "literal_eval \<Rightarrow> string \<Rightarrow> string list" where
  "parse_column_names literal_eval column_names =
     (case literal_eval column_names of
        Some cols \<Rightarrow> cols
      | None \<Rightarrow>
          (let cols1 = findall_quoted CHR 0x27 column_names in
           if cols1 \<noteq> [] then cols1
           else let cols2 = findall_quoted CHR 0x22 column_names in
             if cols2 \<noteq> [] then cols2
             else map strip (split_on CHR '','' column_names)))"

text \<open>The loop \<open>for col in cols\<close> over one line: the line and the list of masked field
  names are updated in place.\<close>

fun mask_cols :: "string set \<Rightarrow> string list \<Rightarrow> string \<times> string list \<Rightarrow> string \<times> string list"
  where
  "mask_cols pii_fields [] (line, notice) = (line, notice)"
| "mask_cols pii_fields (col # cols) (line, notice) =
     (if str_in col line then
        (let parts = split_first CHR '':'' line in
         if length parts = 2 then
           (let field_name = strip (parts ! 0); v = strip (parts ! 1) in
            if field_name \<in> pii_fields then
              mask_cols pii_fields cols
                (replace v (mask_field_value field_name v) line,
                 if field_name \<notin> set notice then notice @ [field_name] else notice)
            else mask_cols pii_fields cols (line, notice))
         else mask_cols pii_fields cols (line, notice))
      else mask_cols pii_fields cols (line, notice))"

text \<open>The body of the loop \<open>for line in lines\<close>: a line with a colon and some column
  name in it goes through \<open>mask_cols\<close>; any other line is kept.\<close>

definition protect_line ::
  "string set \<Rightarrow> string list \<Rightarrow> string \<times> string list \<Rightarrow> string \<times> string list" where
  "protect_line pii_fields cols ln =
     (case ln of (line, notice) \<Rightarrow>
        if CHR '':'' \<in> set line \<and> list_ex (\<lambda>col. str_in col line) cols
        then mask_cols pii_fields cols (line, notice)
        else (line, notice))"

fun protect_lines ::
  "string set \<Rightarrow> string list \<Rightarrow> string list \<Rightarrow> string list \<times> string list
     \<Rightarrow> string list \<times> string list" where
  "protect_lines pii_fields cols [] (protected_lines, notice) = (protected_lines, notice)"
| "protect_lines pii_fields cols (line # lines) (protected_lines, notice) =
     (case protect_line pii_fields cols (line, notice) of
        (line', notice') \<Rightarrow>
          protect_lines pii_fields cols lines (protected_lines @ [line'], notice'))"

definition pii_notice :: "string list \<Rightarrow> string" where
  "pii_notice masked_fields_notice =
     nl @ nl @ ''[PII Protection Applied] The following fields have been masked for privacy: ''
       @ join '', '' masked_fields_notice"

definition pii_protection_tool :: "literal_eval \<Rightarrow> string \<Rightarrow> string \<Rightarrow> string" where
  "pii_protection_tool literal_eval database_results column_names =
     (let cols = parse_column_names literal_eval column_names;
          pii_fields = detect_pii_fields cols
      in if pii_fields = {} then database_results
         else (case protect_lines pii_fields cols (split_on CHR 0x0A database_results) ([], []) of
                 (protected_lines, notice) \<Rightarrow>
                   (if notice \<noteq> [] then join nl protected_lines @ pii_notice notice
                    else join nl protected_lines)))"

section \<open>The collaborators of the coordinator\<close>

text \<open>
  A tool, as the coordinator sees it: its \<open>metadata.name\<close>, its \<open>metadata.description\<close>,
  the one-argument call (\<open>query_engine.query(query)\<close> of a document tool, \<open>call(query)\<close> of
  a function tool) and the keyword call \<open>call(database_results=..., column_names=...)\<close>.
  A call returns a value (\<open>Inr\<close>) or raises with a message (\<open>Inl\<close>). The value is a
  plain \<open>str\<close>, or an object with a text of its own: a \<open>FunctionTool\<close> of the library
  wraps what its function returns in a \<open>ToolOutput\<close>, and a query engine answers with a
  response object. \<open>str_of\<close> is \<open>str\<close> on such a value.
\<close>

datatype tool_value = Str string | ToolOutput string

fun str_of :: "tool_value \<Rightarrow> string" where
  "str_of (Str s) = s"
| "str_of (ToolOutput content) = content"

record tool =
  tool_name :: string
  tool_desc :: string
  run :: "string \<Rightarrow> string + tool_value"
  run_kw :: "string \<Rightarrow> string \<Rightarrow> string + tool_value"

datatype tool_type = Document | Function

type_synonym tool_entry = "string \<times> string \<times> tool \<times> tool_type"

type_synonym tool_result = "string \<times> string \<times> tool_value"

text \<open>
  The completion service answers the \<open>n\<close>-th call with its prompt by a text (\<open>Inr\<close>) or
  raises (\<open>Inl\<close>). The state threaded through the code records the prompts sent and the
  SQL statements executed, in order.
\<close>

type_synonym completion = "nat \<Rightarrow> string \<Rightarrow> string + string"

record world =
  prompts :: "string list"
  executed :: "string list"

definition complete :: "completion \<Rightarrow> world \<Rightarrow> string \<Rightarrow> (string + string) \<times> world" where
  "complete respond w prompt =
     (respond (length (prompts w)) prompt, w\<lparr>prompts := prompts w @ [prompt]\<rparr>)"

section \<open>\<open>AgentCoordinator._check_and_apply_pii_protection\<close>\<close>

text \<open>The first function tool whose lower-cased name contains \<open>pii\<close>.\<close>

definition find_pii_tool :: "tool list \<Rightarrow> tool option" where
  "find_pii_tool function_tools = List.find (\<lambda>t. str_in ''pii'' (lower (tool_name t))) function_tools"

text \<open>The column names the coordinator reads from a result: \<open>None\<close> where the method
  returns early (no \<open>COLUMNS:\<close>, or no match of the expression), else the literal, else the
  single-quoted names, else the double-quoted names.\<close>

definition extract_columns :: "literal_eval \<Rightarrow> string \<Rightarrow> string list option" where
  "extract_columns literal_eval result =
     (if \<not> str_in ''COLUMNS:'' result then None
      else case search_columns result of
        None \<Rightarrow> None
      | Some group1 \<Rightarrow>
          (let columns_str = strip group1 in
           case literal_eval columns_str of
             Some cols \<Rightarrow> Some cols
           | None \<Rightarrow>
               (let cols1 = findall_quoted CHR 0x27 columns_str
                in if cols1 \<noteq> [] then Some cols1
                   else Some (findall_quoted CHR 0x22 columns_str))))"

text \<open>The method on the value a tool returned. On an object that is not a \<open>str\<close> the
  test \<open>"COLUMNS:" not in result\<close> runs over the fields of the object, finds none equal
  to the string, and the object is returned as it came.\<close>

definition check_and_apply_pii_protection ::
  "literal_eval \<Rightarrow> tool list \<Rightarrow> string \<Rightarrow> tool_value \<Rightarrow> tool_value" where
  "check_and_apply_pii_protection literal_eval function_tools name result =
     (if \<not> str_in ''database_query_tool'' name then result
      else case result of
        ToolOutput content \<Rightarrow> result
      | Str text \<Rightarrow>
          (case extract_columns literal_eval text of
             None \<Rightarrow> result
           | Some cols \<Rightarrow>
               (if cols = [] then result
                else if coord_detect_pii_fields cols \<noteq> {} then
                  (case find_pii_tool function_tools of
                     None \<Rightarrow> result
                   | Some pii_tool \<Rightarrow>
                       (case run_kw pii_tool text (repr_list cols) of
                          Inr protected_result \<Rightarrow> protected_result
                        | Inl e \<Rightarrow> result))
                else result)))"

section \<open>\<open>AgentCoordinator._route_query\<close>\<close>

definition all_tools_of :: "tool list \<Rightarrow> tool list \<Rightarrow> tool_entry list" where
  "all_tools_of document_tools function_tools =
     map (\<lambda>t. (tool_name t, tool_desc t, t, Document)) document_tools
     @ map (\<lambda>t. (tool_name t, tool_desc t, t, Function)) function_tools"

definition tool_descriptions :: "tool list \<Rightarrow> tool list \<Rightarrow> string list" where
  "tool_descriptions document_tools function_tools =
     map (\<lambda>(i, t). str_of_nat i @ ''. '' @ tool_name t @ '': '' @ tool_desc t)
       (enumerate 0 document_tools)
     @ map (\<lambda>(i, t). str_of_nat i @ ''. '' @ tool_name t @ '': '' @ tool_desc t)
         (enumerate (length document_tools) function_tools)"

text \<open>The arrow of the routing guidelines, in UTF-8.\<close>

definition arrow :: string where
  "arrow = [CHR 0xE2, CHR 0x86, CHR 0x92]"

definition route_prompt :: "tool list \<Rightarrow> tool list \<Rightarrow> string \<Rightarrow> string" where
  "route_prompt document_tools function_tools query_text =
     ''You are a financial agent coordinator. Analyze the user query and select the appropriate tools to answer it.''
     @ nl @ nl @ ''User Query: '' @ query_text @ nl @ nl
     @ ''Available Tools:'' @ nl
     @ join nl (tool_descriptions document_tools function_tools) @ nl @ nl
     @ ''Routing Guidelines:'' @ nl
     @ ''- Questions about customers, portfolios, holdings '' @ arrow @ '' use database_query_tool'' @ nl
     @ ''- Questions about current stock prices, market data '' @ arrow @ '' use finance_market_search_tool'' @ nl
     @ ''- Questions about company business, strategy, financials from SEC filings '' @ arrow
     @ '' use document tools (AAPL_10k_filing_tool, GOOGL_10k_filing_tool, TSLA_10k_filing_tool)'' @ nl
     @ ''- Complex queries may require multiple tools'' @ nl @ nl
     @ ''Select the tool(s) needed to answer this query. Return ONLY a comma-separated list of tool indices (0-based), nothing else.''
     @ nl
     @ ''For example: '' @ [CHR 0x22] @ ''0,3'' @ [CHR 0x22] @ '' or '' @ [CHR 0x22] @ ''1,2,4''
     @ [CHR 0x22] @ '' or '' @ [CHR 0x22] @ ''5'' @ [CHR 0x22] @ nl @ nl
     @ ''Selected tools:''"

text \<open>\<open>any(kw in query_lower for kw in kws)\<close>.\<close>

definition any_kw :: "string list \<Rightarrow> string \<Rightarrow> bool" where
  "any_kw kws query_lower = list_ex (\<lambda>kw. str_in kw query_lower) kws"

definition database_keywords :: "string list" where
  "database_keywords = [''customer'', ''portfolio'', ''holding'', ''database'']"

definition market_keywords :: "string list" where
  "market_keywords = [''price'', ''stock'', ''market'', ''current'']"

definition filing_keywords :: "string list" where
  "filing_keywords =
     [''apple'', ''aapl'', ''google'', ''googl'', ''tesla'', ''tsla'', ''company'', ''business'',
      ''strategy'', ''revenue'']"

text \<open>The body of the fallback loop for one tool: does the keyword heuristic append the
  tool's index?\<close>

definition fallback_selects :: "string \<Rightarrow> string \<Rightarrow> bool" where
  "fallback_selects query_lower name =
     (let n = lower name in
      if str_in ''database'' n \<and> any_kw database_keywords query_lower then True
      else if str_in ''market'' n \<and> any_kw market_keywords query_lower then True
      else if str_in ''10k'' n \<or> str_in ''filing'' n then
        (if any_kw filing_keywords query_lower then
           (if str_in ''aapl'' n \<and> (str_in ''apple'' query_lower \<or> str_in ''aapl'' query_lower)
              then True
            else if str_in ''googl'' n
                    \<and> (str_in ''google'' query_lower \<or> str_in ''googl'' query_lower
                        \<or> str_in ''alphabet'' query_lower)
              then True
            else if str_in ''tsla'' n \<and> (str_in ''tesla'' query_lower \<or> str_in ''tsla'' query_lower)
              then True
            else False)
         else False)
      else False)"

fun fallback_loop :: "string \<Rightarrow> (nat \<times> tool_entry) list \<Rightarrow> nat list \<Rightarrow> nat list" where
  "fallback_loop query_lower [] valid_indices = valid_indices"
| "fallback_loop query_lower ((idx, (name, desc, t, ty)) # rest) valid_indices =
     fallback_loop query_lower rest
       (if fallback_selects query_lower name then valid_indices @ [idx] else valid_indices)"

text \<open>The indices to execute: the numbers of the response that are in range, or the
  keyword fallback when there is none; then without duplicates, ascending. \<open>None\<close> where
  reading the numbers raises.\<close>

definition select_indices :: "tool_entry list \<Rightarrow> string \<Rightarrow> string \<Rightarrow> nat list option" where
  "select_indices all_tools query_text response_text =
     (case findall_numbers (strip response_text) of
        None \<Rightarrow> None
      | Some indices \<Rightarrow>
          (let valid_indices = filter (\<lambda>idx. idx < length all_tools) indices;
               valid_indices' = (if valid_indices = []
                                 then fallback_loop (lower query_text) (enumerate 0 all_tools)
                                        valid_indices
                                 else valid_indices)
           in Some (sort (remdups valid_indices'))))"

text \<open>One pass of the execution loop: \<open>None\<close> is the \<open>continue\<close> of the PII tool, which
  adds no entry. The answer of a document tool goes through \<open>str\<close>; what a function tool
  returns is taken as it is.\<close>

definition execute_one ::
  "literal_eval \<Rightarrow> tool list \<Rightarrow> string \<Rightarrow> tool_entry \<Rightarrow> tool_result option" where
  "execute_one literal_eval function_tools query_text entry =
     (case entry of (name, desc, t, ty) \<Rightarrow>
        (if ty = Function \<and> \<not> str_in ''database'' (lower name) \<and> \<not> str_in ''market'' (lower name)
            \<and> str_in ''pii'' (lower name)
         then None
         else case run t query_text of
                Inr result \<Rightarrow>
                  Some (name, desc,
                        check_and_apply_pii_protection literal_eval function_tools name
                          (if ty = Document then Str (str_of result) else result))
              | Inl e \<Rightarrow> Some (name, desc, Str (''Error: '' @ e))))"

fun execute_tools ::
  "literal_eval \<Rightarrow> tool list \<Rightarrow> tool_entry list \<Rightarrow> string \<Rightarrow> nat list \<Rightarrow> tool_result list
     \<Rightarrow> tool_result list" where
  "execute_tools literal_eval function_tools all_tools query_text [] results = results"
| "execute_tools literal_eval function_tools all_tools query_text (idx # rest) results =
     execute_tools literal_eval function_tools all_tools query_text rest
       (if idx < length all_tools then
          (case execute_one literal_eval function_tools query_text (all_tools ! idx) of
             None \<Rightarrow> results
           | Some r \<Rightarrow> results @ [r])
        else results)"

definition route_query ::
  "completion \<Rightarrow> literal_eval \<Rightarrow> tool list \<Rightarrow> tool list \<Rightarrow> world \<Rightarrow> string
     \<Rightarrow> tool_result list \<times> world" where
  "route_query respond literal_eval document_tools function_tools w query_text =
     (let all_tools = all_tools_of document_tools function_tools in
      case complete respond w (route_prompt document_tools function_tools query_text) of
        (Inl e, w') \<Rightarrow> ([], w')
      | (Inr response_text, w') \<Rightarrow>
          (case select_indices all_tools query_text response_text of
             None \<Rightarrow> ([], w')
           | Some valid_indices \<Rightarrow>
               (execute_tools literal_eval function_tools all_tools query_text valid_indices [],
                w')))"

section \<open>\<open>AgentCoordinator.query\<close>\<close>

definition unable_message :: string where
  "unable_message = ''Unable to process query. No appropriate tools found or error occurred.''"

definition synthesis_prompt :: "string \<Rightarrow> tool_result list \<Rightarrow> string" where
  "synthesis_prompt question tool_results =
     ''You are a financial analyst assistant. Synthesize the following information from multiple sources into a comprehensive, coherent answer.''
     @ nl @ nl @ ''Original Query: '' @ question @ nl @ nl @ ''Information from Tools:'' @ nl
     @ concat (map (\<lambda>(i, (name, desc, result)).
                  nl @ str_of_nat i @ ''. '' @ name @ '' ('' @ desc @ ''):'' @ nl @ str_of result
                  @ nl)
               (enumerate 1 tool_results))
     @ nl @ nl
     @ ''Provide a comprehensive answer that integrates all the information above. Be clear, concise, and ensure all relevant details are included.''"

definition fallback_answer :: "string \<Rightarrow> tool_result list \<Rightarrow> string" where
  "fallback_answer question tool_results =
     ''Query: '' @ question @ nl @ nl
     @ concat (map (\<lambda>(name, desc, result).
                      ''From '' @ name @ '':'' @ nl @ str_of result @ nl @ nl)
               tool_results)"

text \<open>The tools are taken as already set up; \<open>verbose\<close> printing is left out.\<close>

definition query ::
  "completion \<Rightarrow> literal_eval \<Rightarrow> tool list \<Rightarrow> tool list \<Rightarrow> world \<Rightarrow> string \<Rightarrow> string \<times> world"
  where
  "query respond literal_eval document_tools function_tools w question =
     (case route_query respond literal_eval document_tools function_tools w question of
        (tool_results, w1) \<Rightarrow>
          (if tool_results = [] then (unable_message, w1)
           else if length tool_results = 1 then (str_of (snd (snd (tool_results ! 0))), w1)
           else case complete respond w1 (synthesis_prompt question tool_results) of
                  (Inr text, w2) \<Rightarrow> (strip text, w2)
                | (Inl e, w2) \<Rightarrow> (fallback_answer question tool_results, w2)))"

section \<open>\<open>database_query_tool\<close>\<close>






text \<open>
  The data store: a statement gives the column names of \<open>cursor.description\<close> and the
  fetched rows, or an error message. A cell is the text that \<open>str\<close> gives for its value.
\<close>

type_synonym database = "string \<Rightarrow> string + (string list \<times> string list list)"

type_synonym row_dict = "(string \<times> string) list"

text \<open>A row as a \<open>dict\<close> keyed by column name: a repeated name keeps its first position
  and its last value.\<close>

definition make_row_dict :: "string list \<Rightarrow> string list \<Rightarrow> row_dict" where
  "make_row_dict column_names row =
     foldl (\<lambda>d (col_name, v). AList.update col_name v d) [] (zip column_names row)"


text \<open>The line of one cell, without its newline.\<close>

definition row_line :: "string \<Rightarrow> string \<Rightarrow> string" where
  "row_line col_name v = ''  '' @ col_name @ '': '' @ v"

definition format_row :: "nat \<times> row_dict \<Rightarrow> string" where
  "format_row ir =
     (case ir of (i, row) \<Rightarrow>
        ''Row '' @ str_of_nat i @ '':'' @ nl
        @ concat (map (\<lambda>(col_name, v). row_line col_name v @ nl) row) @ nl)"

definition format_result :: "string \<Rightarrow> string list \<Rightarrow> row_dict list \<Rightarrow> string" where
  "format_result sql_query column_names results =
     ''SQL Query: '' @ sql_query @ nl @ nl
     @ ''COLUMNS: '' @ repr_list column_names @ nl @ nl
     @ ''Database Results:'' @ nl
     @ (if results = [] then ''No results found.''
        else concat (map format_row (enumerate 1 results)))"



section \<open>A reader of list displays, for the worked examples\<close>

text \<open>
  The examples need a concrete \<open>literal_eval\<close>. \<open>read_str_list\<close> reads a list display of
  plainly quoted strings (no backslash inside the quotes), as \<open>ast.literal_eval\<close> does on
  such a text, and gives \<open>None\<close> on every other text. It is applied below only to list
  displays of that kind and to texts that are no Python literal at all.
\<close>

datatype scan_state = Start | BeforeItem | InStr char string | AfterItem | Done

fun read_scan :: "scan_state \<Rightarrow> string list \<Rightarrow> string \<Rightarrow> string list option" where
  "read_scan st acc [] = (if st = Done then Some acc else None)"
| "read_scan Start acc (c # cs) = (if c = CHR ''['' then read_scan BeforeItem acc cs else None)"
| "read_scan BeforeItem acc (c # cs) =
     (if is_space c then read_scan BeforeItem acc cs
      else if c = CHR 0x27 \<or> c = CHR 0x22 then read_scan (InStr c []) acc cs
      else if c = CHR '']'' then read_scan Done acc cs
      else None)"
| "read_scan (InStr q body) acc (c # cs) =
     (if c = q then read_scan AfterItem (acc @ [body]) cs
      else if c = CHR 0x5C \<or> c = CHR 0x0A then None
      else read_scan (InStr q (body @ [c])) acc cs)"
| "read_scan AfterItem acc (c # cs) =
     (if is_space c then read_scan AfterItem acc cs
      else if c = CHR '','' then read_scan BeforeItem acc cs
      else if c = CHR '']'' then read_scan Done acc cs
      else None)"
| "read_scan Done acc (c # cs) = None"

definition read_str_list :: literal_eval where
  "read_str_list s = read_scan Start [] s"

text \<open>The PII tool as the function-tools manager registers it: the one-argument call
  lacks \<open>column_names\<close> and raises; the keyword call runs \<open>pii_protection_tool\<close> and
  wraps its text in a \<open>ToolOutput\<close>.\<close>

definition pii_tool_of :: "literal_eval \<Rightarrow> tool" where
  "pii_tool_of literal_eval =
     \<lparr>tool_name = ''pii_protection_tool'',
      tool_desc = ''Automatically mask personally identifiable information (PII) in database results.'',
      run = (\<lambda>q. Inl ''pii_protection_tool() missing 1 required positional argument''),
      run_kw = (\<lambda>database_results column_names.
                  Inr (ToolOutput
                         (pii_protection_tool literal_eval database_results column_names)))\<rparr>"

section \<open>Sample collaborators for the worked examples\<close>

definition w0 :: world where
  "w0 = \<lparr>prompts = [], executed = []\<rparr>"

text \<open>A tool that answers every query with the same \<open>str\<close>, one that answers with the
  same text wrapped in a \<open>ToolOutput\<close>, and one that always raises.\<close>

definition const_tool :: "string \<Rightarrow> string \<Rightarrow> tool" where
  "const_tool name out =
     \<lparr>tool_name = name, tool_desc = ''a tool'', run = (\<lambda>q. Inr (Str out)),
      run_kw = (\<lambda>a b. Inl ''unexpected keyword argument'')\<rparr>"

definition wrapping_tool :: "string \<Rightarrow> string \<Rightarrow> tool" where
  "wrapping_tool name out =
     \<lparr>tool_name = name, tool_desc = ''a tool'', run = (\<lambda>q. Inr (ToolOutput out)),
      run_kw = (\<lambda>a b. Inl ''unexpected keyword argument'')\<rparr>"

definition failing_tool :: "string \<Rightarrow> string \<Rightarrow> tool" where
  "failing_tool name msg =
     \<lparr>tool_name = name, tool_desc = ''a tool'', run = (\<lambda>q. Inl msg),
      run_kw = (\<lambda>a b. Inl ''unexpected keyword argument'')\<rparr>"

text \<open>A completion service that is down, and one that always answers with the same text.\<close>

definition llm_down :: completion where
  "llm_down n p = Inl ''connection refused''"

definition llm_says :: "string \<Rightarrow> completion" where
  "llm_says t n p = Inr t"

text \<open>The entries of \<open>filing_keywords\<close> that name no company.\<close>

definition context_keywords :: "string list" where
  "context_keywords = [''company'', ''business'', ''strategy'', ''revenue'']"




section \<open>Properties\<close>

lemma name_patterns_branch:
  assumes "f \<in> set name_patterns"
  shows "\<not> str_in ''email'' (lower f) \<and> \<not> str_in ''phone'' (lower f)
         \<and> \<not> str_in ''telephone'' (lower f) \<and> str_in ''name'' (lower f)"
  using assms by (auto simp: name_patterns_def lower_def lower_char_def)

text \<open>
  C3 (as amended). For a field of the personal-name category and a non-empty value the
  mask is \<open>*\<close> repeated \<open>min (len value) 4\<close> times; for the empty value the guard at the
  head of \<open>mask_field_value\<close> returns the empty string, not four stars.
\<close>

theorem C3_name_mask:
  "f \<in> set name_patterns \<Longrightarrow>
     mask_field_value f v = (if v = [] then [] else replicate (min (length v) 4) CHR ''*'')"
  using name_patterns_branch [of f] by (simp add: mask_field_value_def Let_def)

theorem C3_name_mask_witness:
  "''first_name'' \<in> set name_patterns \<and> mask_field_value ''first_name'' ''John'' = ''****''
   \<and> mask_field_value ''first_name'' ''Al'' = ''**''"
  using C3_name_mask [of "''first_name''" "''John''"] C3_name_mask [of "''first_name''" "''Al''"]
  by (simp add: name_patterns_def)

text \<open>C3 as the specification words it fails on the empty value.\<close>

theorem C3_empty_counterexample:
  "''name'' \<in> set name_patterns \<and> mask_field_value ''name'' [] \<noteq> ''****''"
  by (simp add: name_patterns_def mask_field_value_def)

text \<open>
  C10. The detector of the coordinator and the detector nested in the PII tool return
  the same set of field names for every list of field names.
\<close>

theorem C10_detectors_agree:
  "coord_detect_pii_fields field_names = detect_pii_fields field_names"
proof -
  have "coord_is_pii_field = is_pii_field"
    by (rule ext) (simp add: coord_is_pii_field_def is_pii_field_def coord_pii_patterns_def
        pii_patterns_def)
  then show ?thesis
    by (simp add: coord_detect_pii_fields_def detect_pii_fields_def)
qed

subsection \<open>Routing\<close>

text \<open>
  C2 (as amended). When the completion call of the routing step raises, the handler around
  the whole method returns the empty list, and \<open>query\<close> answers with the fixed message;
  the keyword fallback is not consulted.
\<close>

theorem C2_routing_call_failure:
  "respond (length (prompts w)) (route_prompt document_tools function_tools q) = Inl e \<Longrightarrow>
     fst (route_query respond literal_eval document_tools function_tools w q) = []
     \<and> fst (query respond literal_eval document_tools function_tools w q) = unable_message"
  by (simp add: route_query_def query_def complete_def)

theorem C2_routing_call_failure_witness:
  "llm_down (length (prompts w0))
      (route_prompt [] [const_tool ''database_query_tool'' ''rows''] ''list customers'')
     = Inl ''connection refused''
   \<and> fst (route_query llm_down read_str_list [] [const_tool ''database_query_tool'' ''rows''] w0
            ''list customers'') = []
   \<and> fst (query llm_down read_str_list [] [const_tool ''database_query_tool'' ''rows''] w0
            ''list customers'') = unable_message"
proof -
  have h: "llm_down (length (prompts w0))
      (route_prompt [] [const_tool ''database_query_tool'' ''rows''] ''list customers'')
     = Inl ''connection refused''"
    by (simp add: llm_down_def)
  show ?thesis
    using h C2_routing_call_failure [of llm_down w0 "[]"
        "[const_tool ''database_query_tool'' ''rows'']" "''list customers''"
        "''connection refused''" read_str_list]
    by simp
qed

text \<open>
  C2 as the specification words it fails: with the service down the query
  \<open>list customers\<close> gets the empty selection, although the keyword fallback, applied to
  the same query after an answer without indices, selects and runs the database tool.
\<close>

theorem C2_fallback_counterexample:
  "fst (route_query llm_down read_str_list [] [const_tool ''database_query_tool'' ''rows''] w0
          ''list customers'') = []
   \<and> fst (query llm_down read_str_list [] [const_tool ''database_query_tool'' ''rows''] w0
            ''list customers'') = unable_message
   \<and> fst (route_query (llm_says '''') read_str_list [] [const_tool ''database_query_tool'' ''rows'']
            w0 ''list customers'') = [(''database_query_tool'', ''a tool'', Str ''rows'')]"
  by code_simp

lemma fallback_loop_eq:
  "fallback_loop q ents acc =
     acc @ map fst (filter (\<lambda>(idx, e). fallback_selects q (fst e)) ents)"
  by (induction q ents acc rule: fallback_loop.induct) simp_all

lemma fallback_index_iff:
  "idx \<in> set (fallback_loop q (enumerate 0 all_tools) []) \<longleftrightarrow>
     idx < length all_tools \<and> fallback_selects q (fst (all_tools ! idx))"
  by (auto simp: fallback_loop_eq in_set_enumerate_eq image_iff)

text \<open>
  C4 (as amended). In the keyword fallback, the index of a document tool (a name with
  \<open>10k\<close> or \<open>filing\<close>, without \<open>database\<close> or \<open>market\<close>) is selected exactly when the
  lower-cased query contains one of the filing keywords and names the company of the tool.
  The company names and tickers are themselves filing keywords, so no further context
  word is needed.
\<close>

theorem C4_filing_tool_fallback:
  assumes "idx < length all_tools" and "fst (all_tools ! idx) = name"
    and "\<not> str_in ''database'' (lower name)" and "\<not> str_in ''market'' (lower name)"
    and "str_in ''10k'' (lower name) \<or> str_in ''filing'' (lower name)"
  shows "idx \<in> set (fallback_loop q (enumerate 0 all_tools) []) \<longleftrightarrow>
     any_kw filing_keywords q
     \<and> ((str_in ''aapl'' (lower name) \<and> (str_in ''apple'' q \<or> str_in ''aapl'' q))
        \<or> (str_in ''googl'' (lower name)
            \<and> (str_in ''google'' q \<or> str_in ''googl'' q \<or> str_in ''alphabet'' q))
        \<or> (str_in ''tsla'' (lower name) \<and> (str_in ''tesla'' q \<or> str_in ''tsla'' q)))"
  using assms by (auto simp: fallback_index_iff fallback_selects_def Let_def)

theorem C4_filing_tool_fallback_witness:
  "(0::nat) < length (all_tools_of [const_tool ''AAPL_10k_filing_tool'' ''10-K text''] [])
   \<and> fst (all_tools_of [const_tool ''AAPL_10k_filing_tool'' ''10-K text''] [] ! 0)
       = ''AAPL_10k_filing_tool''
   \<and> \<not> str_in ''database'' (lower ''AAPL_10k_filing_tool'')
   \<and> \<not> str_in ''market'' (lower ''AAPL_10k_filing_tool'')
   \<and> (str_in ''10k'' (lower ''AAPL_10k_filing_tool'')
       \<or> str_in ''filing'' (lower ''AAPL_10k_filing_tool''))
   \<and> 0 \<in> set (fallback_loop ''apple revenue''
                (enumerate 0 (all_tools_of [const_tool ''AAPL_10k_filing_tool'' ''10-K text''] []))
                [])"
proof -
  have h1: "(0::nat) < length (all_tools_of [const_tool ''AAPL_10k_filing_tool'' ''10-K text''] [])"
    by (simp add: all_tools_of_def)
  have h2: "fst (all_tools_of [const_tool ''AAPL_10k_filing_tool'' ''10-K text''] [] ! 0)
       = ''AAPL_10k_filing_tool''"
    by (simp add: all_tools_of_def const_tool_def)
  have h3: "\<not> str_in ''database'' (lower ''AAPL_10k_filing_tool'')"
    by code_simp
  have h4: "\<not> str_in ''market'' (lower ''AAPL_10k_filing_tool'')"
    by code_simp
  have h5: "str_in ''10k'' (lower ''AAPL_10k_filing_tool'')
       \<or> str_in ''filing'' (lower ''AAPL_10k_filing_tool'')"
    by code_simp
  have rhs: "any_kw filing_keywords ''apple revenue''
     \<and> ((str_in ''aapl'' (lower ''AAPL_10k_filing_tool'')
          \<and> (str_in ''apple'' ''apple revenue'' \<or> str_in ''aapl'' ''apple revenue''))
        \<or> (str_in ''googl'' (lower ''AAPL_10k_filing_tool'')
            \<and> (str_in ''google'' ''apple revenue'' \<or> str_in ''googl'' ''apple revenue''
                \<or> str_in ''alphabet'' ''apple revenue''))
        \<or> (str_in ''tsla'' (lower ''AAPL_10k_filing_tool'')
            \<and> (str_in ''tesla'' ''apple revenue'' \<or> str_in ''tsla'' ''apple revenue'')))"
    by code_simp
  have "0 \<in> set (fallback_loop ''apple revenue''
                (enumerate 0 (all_tools_of [const_tool ''AAPL_10k_filing_tool'' ''10-K text''] []))
                [])"
    using C4_filing_tool_fallback [OF h1 h2 h3 h4 h5, of "''apple revenue''"] rhs by blast
  with h1 h2 h3 h4 h5 show ?thesis by blast
qed

text \<open>
  C4 as the specification words it fails: the query \<open>Apple\<close> names the company and has
  no business or financial context word, and the fallback selects the Apple filing tool.
\<close>

theorem C4_company_alone_counterexample:
  "select_indices (all_tools_of [const_tool ''AAPL_10k_filing_tool'' ''10-K text''] []) ''Apple''
      '''' = Some [0]
   \<and> \<not> any_kw context_keywords (lower ''Apple'')"
  by code_simp

subsection \<open>Executing the selected tools\<close>

lemma execute_tools_acc:
  "execute_tools lit fts all q idxs results = results @ execute_tools lit fts all q idxs []"
proof (induction idxs arbitrary: results)
  case Nil
  show ?case by simp
next
  case (Cons i idxs)
  define X where "X = (if i < length all then
     (case execute_one lit fts q (all ! i) of None \<Rightarrow> [] | Some r \<Rightarrow> [r]) else [])"
  have step: "execute_tools lit fts all q (i # idxs) rs = execute_tools lit fts all q idxs (rs @ X)"
    for rs
    by (simp add: X_def split: option.splits)
  have "execute_tools lit fts all q (i # idxs) results
          = (results @ X) @ execute_tools lit fts all q idxs []"
    using Cons.IH [of "results @ X"] by (simp only: step)
  moreover have "execute_tools lit fts all q (i # idxs) [] = X @ execute_tools lit fts all q idxs []"
    using Cons.IH [of "[] @ X"] by (simp only: step) simp
  ultimately show ?case by simp
qed

lemma execute_tools_append:
  "execute_tools lit fts all q (xs @ ys) results =
     execute_tools lit fts all q ys (execute_tools lit fts all q xs results)"
  by (induction xs arbitrary: results) simp_all

text \<open>
  C5. When the call of a selected tool raises with message \<open>e\<close>, the entry of that tool is
  \<open>Error: e\<close>, and the tools selected before and after it contribute exactly what they
  contribute on their own: the batch is not cut short. (The PII tool is skipped by the
  loop and is never called, so it cannot raise here.)
\<close>

theorem C5_tool_failure_isolated:
  assumes "idx < length all_tools" and "all_tools ! idx = (name, desc, t, ty)"
    and "run t q = Inl e"
    and "ty = Document \<or> str_in ''database'' (lower name) \<or> str_in ''market'' (lower name)
         \<or> \<not> str_in ''pii'' (lower name)"
  shows "execute_tools lit fts all_tools q (before @ idx # after) [] =
     execute_tools lit fts all_tools q before [] @ [(name, desc, Str (''Error: '' @ e))]
     @ execute_tools lit fts all_tools q after []"
proof -
  have one: "execute_tools lit fts all_tools q [idx] [] = [(name, desc, Str (''Error: '' @ e))]"
    using assms by (auto simp: execute_one_def)
  have "execute_tools lit fts all_tools q (before @ [idx] @ after) [] =
     execute_tools lit fts all_tools q before [] @ execute_tools lit fts all_tools q [idx] []
     @ execute_tools lit fts all_tools q after []"
    by (simp only: execute_tools_append) (metis execute_tools_acc append_assoc)
  then show ?thesis using one by simp
qed

theorem C5_tool_failure_isolated_witness:
  "(0::nat) < length (all_tools_of [failing_tool ''AAPL_10k_filing_tool'' ''index not loaded'']
                       [const_tool ''finance_market_search_tool'' ''AAPL: 1''])
   \<and> all_tools_of [failing_tool ''AAPL_10k_filing_tool'' ''index not loaded'']
        [const_tool ''finance_market_search_tool'' ''AAPL: 1''] ! 0
      = (''AAPL_10k_filing_tool'', ''a tool'',
         failing_tool ''AAPL_10k_filing_tool'' ''index not loaded'', Document)
   \<and> run (failing_tool ''AAPL_10k_filing_tool'' ''index not loaded'') ''apple price''
      = Inl ''index not loaded''
   \<and> execute_tools read_str_list [const_tool ''finance_market_search_tool'' ''AAPL: 1'']
        (all_tools_of [failing_tool ''AAPL_10k_filing_tool'' ''index not loaded'']
           [const_tool ''finance_market_search_tool'' ''AAPL: 1''])
        ''apple price'' ([] @ 0 # [1]) []
      = [(''AAPL_10k_filing_tool'', ''a tool'', Str ''Error: index not loaded''),
         (''finance_market_search_tool'', ''a tool'', Str ''AAPL: 1'')]"
proof -
  let ?doc = "failing_tool ''AAPL_10k_filing_tool'' ''index not loaded''"
  let ?fts = "[const_tool ''finance_market_search_tool'' ''AAPL: 1'']"
  let ?all = "all_tools_of [?doc] ?fts"
  have h1: "(0::nat) < length ?all"
    by (simp add: all_tools_of_def)
  have h2: "?all ! 0 = (''AAPL_10k_filing_tool'', ''a tool'', ?doc, Document)"
    by (simp add: all_tools_of_def failing_tool_def)
  have h3: "run ?doc ''apple price'' = Inl ''index not loaded''"
    by (simp add: failing_tool_def)
  have h4: "Document = Document \<or> str_in ''database'' (lower ''AAPL_10k_filing_tool'')
      \<or> str_in ''market'' (lower ''AAPL_10k_filing_tool'')
      \<or> \<not> str_in ''pii'' (lower ''AAPL_10k_filing_tool'')"
    by simp
  have rest: "execute_tools read_str_list ?fts ?all ''apple price'' [1] []
      = [(''finance_market_search_tool'', ''a tool'', Str ''AAPL: 1'')]"
    by code_simp
  have "execute_tools read_str_list ?fts ?all ''apple price'' ([] @ 0 # [1]) []
      = [(''AAPL_10k_filing_tool'', ''a tool'', Str ''Error: index not loaded''),
         (''finance_market_search_tool'', ''a tool'', Str ''AAPL: 1'')]"
    using C5_tool_failure_isolated [OF h1 h2 h3 h4, of read_str_list ?fts "[]" "[1]"] rest
    by simp
  with h1 h2 h3 show ?thesis by blast
qed

subsection \<open>The answer of \<open>query\<close>\<close>

lemma execute_tools_entry:
  assumes "r \<in> set (execute_tools lit fts all q idxs [])"
  shows "\<exists>idx\<in>set idxs. idx < length all \<and> execute_one lit fts q (all ! idx) = Some r"
  using assms
proof (induction idxs)
  case Nil
  then show ?case by simp
next
  case (Cons i idxs)
  define X where "X = (if i < length all then
     (case execute_one lit fts q (all ! i) of None \<Rightarrow> [] | Some r \<Rightarrow> [r]) else [])"
  have "execute_tools lit fts all q (i # idxs) [] = execute_tools lit fts all q idxs X"
    by (simp add: X_def split: option.splits)
  also have "\<dots> = X @ execute_tools lit fts all q idxs []"
    by (rule execute_tools_acc)
  finally have eq: "execute_tools lit fts all q (i # idxs) [] =
      X @ execute_tools lit fts all q idxs []" .
  have "r \<in> set (X @ execute_tools lit fts all q idxs [])"
    using Cons.prems unfolding eq .
  then consider (here) "r \<in> set X" | (later) "r \<in> set (execute_tools lit fts all q idxs [])"
    by auto
  then show ?case
  proof cases
    case here
    have "i < length all \<and> execute_one lit fts q (all ! i) = Some r"
    proof (cases "i < length all")
      case True
      then show ?thesis
        using here by (cases "execute_one lit fts q (all ! i)") (simp_all add: X_def)
    next
      case False
      then show ?thesis using here by (simp add: X_def)
    qed
    then show ?thesis by simp
  next
    case later
    from Cons.IH [OF this] show ?thesis by auto
  qed
qed

lemma execute_one_recorded:
  assumes "execute_one lit fts q (name, desc, t, ty) = Some (name', desc', result)"
  shows "name' = name \<and> desc' = desc
     \<and> (case run t q of
           Inl e \<Rightarrow> result = Str (''Error: '' @ e)
         | Inr out \<Rightarrow>
             result = check_and_apply_pii_protection lit fts name
                        (if ty = Document then Str (str_of out) else out))"
  using assms by (auto simp: execute_one_def split: if_splits sum.splits)

lemma check_and_apply_other_tool:
  "\<not> str_in ''database_query_tool'' name \<Longrightarrow>
     check_and_apply_pii_protection lit fts name v = v"
  by (simp add: check_and_apply_pii_protection_def)

lemma check_and_apply_tool_output:
  "check_and_apply_pii_protection lit fts name (ToolOutput content) = ToolOutput content"
  by (simp add: check_and_apply_pii_protection_def)

text \<open>
  C7 (as amended). When routing yields exactly one tool result, \<open>query\<close> returns
  \<open>str\<close> of that recorded result as it is, and the only prompt sent is the routing prompt:
  no synthesis call is made. The recorded result belongs to a tool of the catalogue. It is
  \<open>Error:\<close> with the message when the tool raised; otherwise it is what the protection
  step of the coordinator returns for the output of the tool, which is that output itself
  when the name of the tool does not contain \<open>database_query_tool\<close> and when a function
  tool returns a \<open>ToolOutput\<close>. A plain-string output of the database tool with PII
  columns is recorded masked, so there the answer is not the raw output of the tool.
\<close>

theorem C7_single_result_answer:
  assumes "route_query respond lit document_tools function_tools w q
             = ([(name, desc, result)], w1)"
  shows "query respond lit document_tools function_tools w q = (str_of result, w1)
     \<and> prompts w1 = prompts w @ [route_prompt document_tools function_tools q]
     \<and> (\<exists>idx t ty.
           idx < length (all_tools_of document_tools function_tools)
         \<and> all_tools_of document_tools function_tools ! idx = (name, desc, t, ty)
         \<and> (case run t q of
               Inl e \<Rightarrow> result = Str (''Error: '' @ e)
             | Inr out \<Rightarrow>
                 result = check_and_apply_pii_protection lit function_tools name
                            (if ty = Document then Str (str_of out) else out)
               \<and> (\<not> str_in ''database_query_tool'' name \<longrightarrow> str_of result = str_of out)
               \<and> (case out of
                     ToolOutput content \<Rightarrow> ty = Function \<longrightarrow> result = out
                   | Str text \<Rightarrow> True)))"
proof -
  let ?all = "all_tools_of document_tools function_tools"
  let ?p = "route_prompt document_tools function_tools q"
  have a: "query respond lit document_tools function_tools w q = (str_of result, w1)"
    using assms by (simp add: query_def)
  obtain response where resp: "respond (length (prompts w)) ?p = Inr response"
    and w1: "w1 = w\<lparr>prompts := prompts w @ [?p]\<rparr>"
    using assms
    by (auto simp: route_query_def complete_def Let_def split: sum.splits option.splits)
  have b: "prompts w1 = prompts w @ [?p]"
    using w1 by simp
  obtain idxs where sel: "select_indices ?all q response = Some idxs"
    and ex: "execute_tools lit function_tools ?all q idxs [] = [(name, desc, result)]"
    using assms resp
    by (auto simp: route_query_def complete_def Let_def split: option.splits)
  have "(name, desc, result) \<in> set (execute_tools lit function_tools ?all q idxs [])"
    using ex by simp
  then obtain idx where idx: "idx < length ?all"
    and one: "execute_one lit function_tools q (?all ! idx) = Some (name, desc, result)"
    using execute_tools_entry by blast
  obtain n d t ty where entry: "?all ! idx = (n, d, t, ty)"
    by (cases "?all ! idx") auto
  note rec = execute_one_recorded [OF one [unfolded entry]]
  have nd: "n = name" "d = desc" using rec by simp_all
  have body: "case run t q of
               Inl e \<Rightarrow> result = Str (''Error: '' @ e)
             | Inr out \<Rightarrow>
                 result = check_and_apply_pii_protection lit function_tools name
                            (if ty = Document then Str (str_of out) else out)
               \<and> (\<not> str_in ''database_query_tool'' name \<longrightarrow> str_of result = str_of out)
               \<and> (case out of
                     ToolOutput content \<Rightarrow> ty = Function \<longrightarrow> result = out
                   | Str text \<Rightarrow> True)"
  proof (cases "run t q")
    case (Inl e)
    then show ?thesis using rec nd by simp
  next
    case (Inr out)
    have r: "result = check_and_apply_pii_protection lit function_tools name
                        (if ty = Document then Str (str_of out) else out)"
      using rec nd Inr by simp
    have v: "\<not> str_in ''database_query_tool'' name \<longrightarrow> str_of result = str_of out"
      using r by (simp add: check_and_apply_other_tool)
    have o: "case out of ToolOutput content \<Rightarrow> ty = Function \<longrightarrow> result = out | Str text \<Rightarrow> True"
      using r by (cases out) (simp_all add: check_and_apply_tool_output)
    show ?thesis using Inr r v o by simp
  qed
  have "idx < length ?all \<and> ?all ! idx = (name, desc, t, ty)"
    using idx entry nd by simp
  then show ?thesis using a b body by blast
qed

theorem C7_single_result_answer_witness:
  "route_query (llm_says ''0'') read_str_list []
      [wrapping_tool ''database_query_tool''
         (format_result ''SELECT email FROM customers'' [''email'']
            [make_row_dict [''email''] [''a@b.com'']]),
       pii_tool_of read_str_list] w0 ''list customer emails''
    = ([(''database_query_tool'', ''a tool'',
         ToolOutput (format_result ''SELECT email FROM customers'' [''email'']
            [make_row_dict [''email''] [''a@b.com'']]))],
       \<lparr>prompts = [route_prompt []
                     [wrapping_tool ''database_query_tool''
                        (format_result ''SELECT email FROM customers'' [''email'']
                           [make_row_dict [''email''] [''a@b.com'']]),
                      pii_tool_of read_str_list] ''list customer emails''],
        executed = []\<rparr>)
   \<and> fst (query (llm_says ''0'') read_str_list []
            [wrapping_tool ''database_query_tool''
               (format_result ''SELECT email FROM customers'' [''email'']
                  [make_row_dict [''email''] [''a@b.com'']]),
             pii_tool_of read_str_list] w0 ''list customer emails'')
      = format_result ''SELECT email FROM customers'' [''email'']
          [make_row_dict [''email''] [''a@b.com'']]"
proof -
  let ?r = "format_result ''SELECT email FROM customers'' [''email'']
              [make_row_dict [''email''] [''a@b.com'']]"
  let ?fts = "[wrapping_tool ''database_query_tool'' ?r, pii_tool_of read_str_list]"
  let ?rs = "[(''database_query_tool'', ''a tool'', ToolOutput ?r)]"
  let ?w1 = "\<lparr>prompts = [route_prompt [] ?fts ''list customer emails''], executed = []\<rparr>"
  have sel: "select_indices (all_tools_of [] ?fts) ''list customer emails'' ''0'' = Some [0]"
    by code_simp
  have ex: "execute_tools read_str_list ?fts (all_tools_of [] ?fts) ''list customer emails'' [0] []
      = ?rs"
    by code_simp
  have h: "route_query (llm_says ''0'') read_str_list [] ?fts w0 ''list customer emails''
      = (?rs, ?w1)"
    using sel ex by (simp add: route_query_def complete_def llm_says_def w0_def)
  have "fst (query (llm_says ''0'') read_str_list [] ?fts w0 ''list customer emails'') = ?r"
    using C7_single_result_answer [OF h] by simp
  with h show ?thesis by blast
qed

text \<open>
  C7 as the specification words it fails: a database tool that returns its text as a
  plain string, with an e-mail column, is the only tool selected, and the answer of
  \<open>query\<close> is the masked text, not the output of the tool.
\<close>

theorem C7_masked_answer_counterexample:
  "run (const_tool ''database_query_tool''
          (format_result ''SELECT email FROM customers'' [''email'']
             [make_row_dict [''email''] [''a@b.com'']])) ''list customer emails''
     = Inr (Str (format_result ''SELECT email FROM customers'' [''email'']
                   [make_row_dict [''email''] [''a@b.com'']]))
   \<and> length (fst (route_query (llm_says ''0'') read_str_list []
                    [const_tool ''database_query_tool''
                       (format_result ''SELECT email FROM customers'' [''email'']
                          [make_row_dict [''email''] [''a@b.com'']]),
                     pii_tool_of read_str_list] w0 ''list customer emails'')) = 1
   \<and> fst (query (llm_says ''0'') read_str_list []
            [const_tool ''database_query_tool''
               (format_result ''SELECT email FROM customers'' [''email'']
                  [make_row_dict [''email''] [''a@b.com'']]),
             pii_tool_of read_str_list] w0 ''list customer emails'')
       \<noteq> format_result ''SELECT email FROM customers'' [''email'']
           [make_row_dict [''email''] [''a@b.com'']]
   \<and> str_in ''a@b.com''
         (format_result ''SELECT email FROM customers'' [''email'']
            [make_row_dict [''email''] [''a@b.com'']])
   \<and> \<not> str_in ''a@b.com''
         (fst (query (llm_says ''0'') read_str_list []
                 [const_tool ''database_query_tool''
                    (format_result ''SELECT email FROM customers'' [''email'']
                       [make_row_dict [''email''] [''a@b.com'']]),
                  pii_tool_of read_str_list] w0 ''list customer emails''))"
proof -
  let ?r = "format_result ''SELECT email FROM customers'' [''email'']
              [make_row_dict [''email''] [''a@b.com'']]"
  let ?fts = "[const_tool ''database_query_tool'' ?r, pii_tool_of read_str_list]"
  have a: "run (const_tool ''database_query_tool'' ?r) ''list customer emails'' = Inr (Str ?r)"
    by (simp add: const_tool_def)
  have b: "length (fst (route_query (llm_says ''0'') read_str_list [] ?fts w0
                          ''list customer emails'')) = 1"
    by code_simp
  have c: "str_in ''a@b.com'' ?r"
    by code_simp
  have d: "\<not> str_in ''a@b.com''
         (fst (query (llm_says ''0'') read_str_list [] ?fts w0 ''list customer emails''))"
    by code_simp
  have e: "fst (query (llm_says ''0'') read_str_list [] ?fts w0 ''list customer emails'') \<noteq> ?r"
    using c d by auto
  show ?thesis using a b c d e by blast
qed

subsection \<open>Substrings\<close>

lemma str_in_prefix: "str_in p (p @ b)"
proof (cases "p @ b")
  case Nil
  then show ?thesis by simp
next
  case (Cons c cs)
  have "take (length p) (p @ b) = p" by simp
  then have "take (length p) (c # cs) = p" by (simp only: Cons)
  then have "str_in p (c # cs)" by simp
  then show ?thesis by (simp only: Cons)
qed

lemma str_in_append: "str_in p (a @ p @ b)"
  by (induction a) (simp_all add: str_in_prefix)

subsection \<open>The database tool\<close>






subsection \<open>PII protection: the cases without masking\<close>

lemma coord_is_pii_field_eq: "coord_is_pii_field = is_pii_field"
  by (rule ext)
    (simp add: coord_is_pii_field_def is_pii_field_def coord_pii_patterns_def pii_patterns_def)

lemma detect_empty_iff:
  "detect_pii_fields cols = {} \<longleftrightarrow> (\<forall>c\<in>set cols. \<not> is_pii_field c)"
  by (auto simp: detect_pii_fields_def filter_empty_conv)

lemma coord_detect_empty_iff:
  "coord_detect_pii_fields cols = {} \<longleftrightarrow> (\<forall>c\<in>set cols. \<not> is_pii_field c)"
  by (auto simp: coord_detect_pii_fields_def coord_is_pii_field_eq filter_empty_conv)

text \<open>
  C8. When no column name is detected as PII, the PII tool returns the database results
  exactly as given, and so does the coordinator's protection step for a text result whose
  column list is this one.
\<close>

theorem C8_no_pii_unchanged:
  assumes "parse_column_names lit column_names = cols" and "\<forall>c\<in>set cols. \<not> is_pii_field c"
  shows "pii_protection_tool lit database_results column_names = database_results
     \<and> (extract_columns lit result = Some cols \<longrightarrow>
          check_and_apply_pii_protection lit fts name (Str result) = Str result)"
  using assms
  by (auto simp: pii_protection_tool_def Let_def detect_empty_iff
      check_and_apply_pii_protection_def coord_detect_empty_iff)

theorem C8_no_pii_unchanged_witness:
  "parse_column_names read_str_list (repr_list [''id'', ''symbol'']) = [''id'', ''symbol'']
   \<and> \<not> is_pii_field ''id'' \<and> \<not> is_pii_field ''symbol''
   \<and> extract_columns read_str_list
        (format_result ''SELECT id, symbol FROM companies'' [''id'', ''symbol'']
           [make_row_dict [''id'', ''symbol''] [''1'', ''AAPL'']]) = Some [''id'', ''symbol'']
   \<and> pii_protection_tool read_str_list
        (format_result ''SELECT id, symbol FROM companies'' [''id'', ''symbol'']
           [make_row_dict [''id'', ''symbol''] [''1'', ''AAPL'']])
        (repr_list [''id'', ''symbol''])
      = format_result ''SELECT id, symbol FROM companies'' [''id'', ''symbol'']
           [make_row_dict [''id'', ''symbol''] [''1'', ''AAPL'']]
   \<and> check_and_apply_pii_protection read_str_list [pii_tool_of read_str_list]
        ''database_query_tool''
        (Str (format_result ''SELECT id, symbol FROM companies'' [''id'', ''symbol'']
           [make_row_dict [''id'', ''symbol''] [''1'', ''AAPL'']]))
      = Str (format_result ''SELECT id, symbol FROM companies'' [''id'', ''symbol'']
           [make_row_dict [''id'', ''symbol''] [''1'', ''AAPL'']])"
proof -
  let ?r = "format_result ''SELECT id, symbol FROM companies'' [''id'', ''symbol'']
           [make_row_dict [''id'', ''symbol''] [''1'', ''AAPL'']]"
  have h1: "parse_column_names read_str_list (repr_list [''id'', ''symbol'']) = [''id'', ''symbol'']"
    by code_simp
  have h2: "\<forall>c\<in>set [''id'', ''symbol'']. \<not> is_pii_field c"
    by code_simp
  have h3: "extract_columns read_str_list ?r = Some [''id'', ''symbol'']"
    by code_simp
  have h2': "\<not> is_pii_field ''id'' \<and> \<not> is_pii_field ''symbol''"
    using h2 by simp
  show ?thesis
    using C8_no_pii_unchanged [OF h1 h2, of ?r ?r "[pii_tool_of read_str_list]"
        "''database_query_tool''"] h1 h2' h3
    by blast
qed




subsection \<open>Masking a result line\<close>

lemma dropWhile_length_id:
  assumes "length (dropWhile P s) = length s"
  shows "dropWhile P s = s"
proof (cases s)
  case Nil
  then show ?thesis by simp
next
  case (Cons x xs)
  have "length (dropWhile P xs) \<le> length xs" by (rule length_dropWhile_le)
  with assms Cons have "\<not> P x" by auto
  with Cons show ?thesis by simp
qed

lemma dropWhile_id_hd:
  assumes "s \<noteq> []" and "dropWhile P s = s"
  shows "\<not> P (hd s)"
proof
  assume p: "P (hd s)"
  from assms(1) obtain x xs where s: "s = x # xs" by (cases s) auto
  have "length (dropWhile P xs) \<le> length xs" by (rule length_dropWhile_le)
  moreover have "dropWhile P s = dropWhile P xs" using p s by simp
  ultimately have "length (dropWhile P s) < length s" using s by simp
  then show False using assms(2) by simp
qed

lemma strip_id:
  assumes "s \<noteq> []" and "\<not> is_space (hd s)" and "\<not> is_space (last s)"
  shows "strip s = s"
proof -
  have a: "dropWhile is_space s = s"
    using assms by (cases s) simp_all
  have "rev s \<noteq> []" and "\<not> is_space (hd (rev s))"
    using assms by (simp_all add: hd_rev)
  then have b: "dropWhile is_space (rev s) = rev s"
    by (cases "rev s") simp_all
  show ?thesis by (simp add: strip_def a b)
qed

lemma strip_fixed_ends:
  assumes "strip s = s" and "s \<noteq> []"
  shows "\<not> is_space (hd s) \<and> \<not> is_space (last s)"
proof -
  have l1: "length (dropWhile is_space (rev (dropWhile is_space s))) \<le> length (dropWhile is_space s)"
    using length_dropWhile_le [of is_space "rev (dropWhile is_space s)"] by simp
  have l2: "length (dropWhile is_space s) \<le> length s"
    by (rule length_dropWhile_le)
  have "length (strip s) = length s" using assms by simp
  then have l3: "length (dropWhile is_space (rev (dropWhile is_space s))) = length s"
    by (simp add: strip_def)
  have e1: "length (dropWhile is_space s) = length s" using l1 l2 l3 by arith
  have a: "dropWhile is_space s = s"
    using e1 by (rule dropWhile_length_id)
  have "length (dropWhile is_space (rev s)) = length (rev s)" using l3 a by simp
  then have b: "dropWhile is_space (rev s) = rev s"
    by (rule dropWhile_length_id)
  have "\<not> is_space (hd s)" using assms(2) a by (rule dropWhile_id_hd)
  moreover have "\<not> is_space (hd (rev s))" using dropWhile_id_hd [OF _ b] assms(2) by simp
  ultimately show ?thesis using assms(2) by (simp add: hd_rev)
qed

lemma strip_spaces_prefix:
  assumes "\<forall>x\<in>set ws. is_space x"
  shows "strip (ws @ s) = strip s"
proof -
  have "dropWhile is_space (ws @ s) = dropWhile is_space s"
    using assms by (induction ws) simp_all
  then show ?thesis by (simp add: strip_def)
qed

lemma split_first_colon:
  assumes "c \<notin> set pre"
  shows "split_first c (pre @ c # rest) = [pre, rest]"
proof -
  have "takeWhile (\<lambda>x. x \<noteq> c) (pre @ c # rest) = pre"
    using assms by (induction pre) auto
  moreover have "dropWhile (\<lambda>x. x \<noteq> c) (pre @ c # rest) = c # rest"
    using assms by (induction pre) auto
  ultimately show ?thesis by (simp add: split_first_def)
qed

lemma replace_from_Nil: "replace_from old new [] = []"
  by (subst replace_from.simps) simp

lemma replace_from_hit:
  "s \<noteq> [] \<Longrightarrow> old \<noteq> [] \<Longrightarrow> take (length old) s = old \<Longrightarrow>
     replace_from old new s = new @ replace_from old new (drop (length old) s)"
  by (subst replace_from.simps) simp

lemma replace_from_miss:
  "s \<noteq> [] \<Longrightarrow> \<not> (old \<noteq> [] \<and> take (length old) s = old) \<Longrightarrow>
     replace_from old new s = hd s # replace_from old new (tl s)"
  by (subst replace_from.simps) auto

lemma replace_from_same_aux: "new = old \<Longrightarrow> replace_from old new s = s"
proof (induction old new s rule: replace_from.induct)
  case (1 old new s)
  show ?case
  proof (cases "s = []")
    case True
    then show ?thesis by (simp add: replace_from_Nil)
  next
    case False
    show ?thesis
    proof (cases "old \<noteq> [] \<and> take (length old) s = old")
      case True
      then have "replace_from old new s = new @ replace_from old new (drop (length old) s)"
        using False by (simp add: replace_from_hit)
      also have "\<dots> = old @ drop (length old) s"
        using "1.IH"(1) [OF False True "1.prems"] "1.prems" by simp
      also have "\<dots> = take (length old) s @ drop (length old) s"
        using True by simp
      also have "\<dots> = s"
        by (rule append_take_drop_id)
      finally show ?thesis .
    next
      case F2: False
      have "replace_from old new s = hd s # replace_from old new (tl s)"
        using False F2 by (rule replace_from_miss)
      also have "\<dots> = hd s # tl s"
        using "1.IH"(2) [OF False F2 "1.prems"] by simp
      finally show ?thesis using False by simp
    qed
  qed
qed

lemma replace_same: "a \<noteq> [] \<Longrightarrow> replace a a s = s"
  by (simp add: replace_def replace_from_same_aux)

lemma take_butlast_snoc:
  assumes "n \<le> length xs"
  shows "take n (xs @ [y]) = take n xs"
  using assms by simp

lemma replace_from_last:
  assumes "v \<noteq> []" and "\<not> str_in v (butlast (pre @ v))"
  shows "replace_from v m (pre @ v) = pre @ m"
  using assms(2)
proof (induction pre)
  case Nil
  have "replace_from v m v = m @ replace_from v m (drop (length v) v)"
    using assms(1) by (simp add: replace_from_hit)
  then show ?case by (simp add: replace_from_Nil)
next
  case (Cons x pre)
  have ne: "pre @ v \<noteq> []" using assms(1) by simp
  have bl: "butlast ((x # pre) @ v) = x # butlast (pre @ v)"
    using ne by simp
  from Cons.prems have nn: "\<not> str_in v (x # butlast (pre @ v))"
    unfolding bl .
  then have n1: "take (length v) (x # butlast (pre @ v)) \<noteq> v"
    and n2: "\<not> str_in v (butlast (pre @ v))"
    by simp_all
  have dec: "(x # pre) @ v = (x # butlast (pre @ v)) @ [last (pre @ v)]"
    using ne by simp
  have len: "length v \<le> length (x # butlast (pre @ v))"
    by simp
  have "take (length v) ((x # pre) @ v) = take (length v) (x # butlast (pre @ v))"
    by (simp only: dec take_butlast_snoc [OF len])
  with n1 have n3: "\<not> (v \<noteq> [] \<and> take (length v) ((x # pre) @ v) = v)" by simp
  have "replace_from v m ((x # pre) @ v) = hd ((x # pre) @ v) # replace_from v m (tl ((x # pre) @ v))"
    by (rule replace_from_miss [OF _ n3]) simp
  then show ?case using Cons.IH [OF n2] by simp
qed

lemma replace_last:
  assumes "v \<noteq> []" and "\<not> str_in v (butlast (pre @ v))"
  shows "replace v m (pre @ v) = pre @ m"
  using assms by (simp add: replace_def replace_from_last)

lemma split_on_notin: "c \<notin> set s \<Longrightarrow> split_on c s = [s]"
  by (induction s) auto

lemma split_on_length: "length (split_on c s) = Suc (length (filter (\<lambda>x. x = c) s))"
  by (induction s) (auto split: list.splits)

lemma split_on_first: "c \<notin> set a \<Longrightarrow> split_on c (a @ c # d) = a # split_on c d"
  by (induction a) (auto split: list.splits)

lemma split_on_two:
  assumes "c \<in> set v" and "length (split_on c v) = 2"
  obtains a d where "v = a @ c # d" and "c \<notin> set a" and "c \<notin> set d" and "split_on c v = [a, d]"
proof -
  from assms(1) obtain a d where v: "v = a @ c # d" and a: "c \<notin> set a"
    by (meson split_list_first)
  have s: "split_on c v = a # split_on c d"
    using v a by (simp add: split_on_first)
  with assms(2) have "length (split_on c d) = 1" by simp
  then have "filter (\<lambda>x. x = c) d = []" by (simp add: split_on_length)
  then have d: "c \<notin> set d" by (auto simp: filter_empty_conv)
  then have "split_on c v = [a, d]" using s by (simp add: split_on_notin)
  with v a d show ?thesis by (rule that)
qed

lemma not_space_star: "\<not> is_space CHR ''*''"
  by (simp add: is_space_def)

lemma not_space_at: "\<not> is_space CHR ''@''"
  by (simp add: is_space_def)

lemma digit_not_space: "is_digit c \<Longrightarrow> \<not> is_space c"
  by (auto simp: is_digit_def is_space_def)

lemma email_rule:
  assumes "v \<noteq> []" and "\<not> is_space (last v)"
  defines "rule \<equiv> (\<lambda>v. if CHR ''@'' \<in> set v \<and> length (split_on CHR ''@'' v) = 2
                         then ''***@'' @ split_on CHR ''@'' v ! 1 else ''***'')"
  shows "rule v \<noteq> [] \<and> \<not> is_space (hd (rule v)) \<and> \<not> is_space (last (rule v))
         \<and> rule (rule v) = rule v"
proof (cases "CHR ''@'' \<in> set v \<and> length (split_on CHR ''@'' v) = 2")
  case True
  then obtain a d where v: "v = a @ CHR ''@'' # d" and d: "CHR ''@'' \<notin> set d"
    and s: "split_on CHR ''@'' v = [a, d]"
    using split_on_two [of "CHR ''@''" v] by blast
  have m: "rule v = ''***@'' @ d"
    using True s by (simp add: rule_def)
  have s2: "split_on CHR ''@'' (''***@'' @ d) = [''***'', d]"
    using split_on_first [of "CHR ''@''" "''***''" d] d by (simp add: split_on_notin)
  have i: "rule (''***@'' @ d) = ''***@'' @ d"
    by (simp only: rule_def s2) simp
  have l: "\<not> is_space (last (''***@'' @ d))"
  proof (cases "d = []")
    case True
    then show ?thesis by (simp add: not_space_at)
  next
    case False
    then have "last (''***@'' @ d) = last v" using v by simp
    then show ?thesis using assms(2) by simp
  qed
  have h: "\<not> is_space (hd (''***@'' @ d))" by (simp add: not_space_star)
  show ?thesis using m i l h by simp
next
  case False
  then have m: "rule v = ''***''" by (simp add: rule_def)
  have "rule ''***'' = ''***''" by (simp add: rule_def)
  then show ?thesis using m by (simp add: not_space_star)
qed

lemma last4_length: "4 \<le> length ds \<Longrightarrow> length (last4 ds) = 4"
  by (simp add: last4_def)

lemma last4_id: "length ds = 4 \<Longrightarrow> last4 ds = ds"
  by (simp add: last4_def)

lemma last4_digits: "\<forall>c\<in>set ds. is_digit c \<Longrightarrow> \<forall>c\<in>set (last4 ds). is_digit c"
  by (auto simp: last4_def dest: in_set_dropD)

lemma digits_rule:
  assumes "filter is_digit p = []" and "filter is_digit q = []"
    and "p \<noteq> []" and "q \<noteq> []"
    and "\<not> is_space (hd p)" and "\<not> is_space (hd q)" and "\<not> is_space (last q)"
  defines "rule \<equiv> (\<lambda>v. let digits = filter is_digit v
                         in if length digits \<ge> 4 then p @ last4 digits else q)"
  shows "rule v \<noteq> [] \<and> \<not> is_space (hd (rule v)) \<and> \<not> is_space (last (rule v))
         \<and> rule (rule v) = rule v"
proof (cases "length (filter is_digit v) \<ge> 4")
  case True
  define ds where "ds = last4 (filter is_digit v)"
  have m: "rule v = p @ ds" using True by (simp add: rule_def ds_def)
  have len: "length ds = 4" using True by (simp add: ds_def last4_length)
  have dig: "\<forall>c\<in>set ds. is_digit c"
    unfolding ds_def by (rule last4_digits) simp
  then have f: "filter is_digit (p @ ds) = ds"
    using assms(1) by simp
  have i: "rule (p @ ds) = p @ ds"
    unfolding rule_def Let_def f using len by (simp add: last4_id)
  have "ds \<noteq> []" using len by auto
  then have "last (p @ ds) = last ds" and "last ds \<in> set ds" by simp_all
  then have l: "\<not> is_space (last (p @ ds))" using dig digit_not_space by metis
  have h: "\<not> is_space (hd (p @ ds))" using assms(3,5) by simp
  show ?thesis using m i l h assms(3) by simp
next
  case False
  then have m: "rule v = q" by (simp add: rule_def)
  have "rule q = q" using assms(2) by (simp add: rule_def)
  then show ?thesis using m assms by simp
qed

lemma stars_rule:
  assumes "v \<noteq> []"
  defines "rule \<equiv> (\<lambda>v. if length v > 0 then replicate (min (length v) 4) CHR ''*'' else ''****'')"
  shows "rule v \<noteq> [] \<and> \<not> is_space (hd (rule v)) \<and> \<not> is_space (last (rule v))
         \<and> rule (rule v) = rule v"
proof -
  define n where "n = min (length v) 4"
  have n: "0 < n" using assms(1) by (simp add: n_def)
  have m: "rule v = replicate n CHR ''*''" using assms(1) by (simp add: rule_def n_def)
  have i: "rule (replicate n CHR ''*'') = replicate n CHR ''*''"
    using n by (simp add: rule_def n_def)
  have "hd (replicate n CHR ''*'') = CHR ''*''" using n by (cases n) simp_all
  moreover have "last (replicate n CHR ''*'') = CHR ''*''" using n by (cases n) simp_all
  ultimately show ?thesis using m i n by (simp add: not_space_star)
qed

lemma address_rule:
  assumes "v \<noteq> []" and "\<not> is_space (hd v)"
  defines "rule \<equiv> (\<lambda>v. if length v > 5 then take 2 v @ replicate (length v - 2) CHR ''*''
                         else ''***'')"
  shows "rule v \<noteq> [] \<and> \<not> is_space (hd (rule v)) \<and> \<not> is_space (last (rule v))
         \<and> rule (rule v) = rule v"
proof (cases "length v > 5")
  case True
  define m where "m = take 2 v @ replicate (length v - 2) CHR ''*''"
  have mv: "rule v = m" using True by (simp add: rule_def m_def)
  have len: "length m = length v" using True by (simp add: m_def)
  have t: "take 2 m = take 2 v" using True by (simp add: m_def)
  have i: "rule m = m" using True by (simp add: rule_def len t) (simp add: m_def)
  have h: "hd m = hd v" using True assms(1) by (cases v) (simp_all add: m_def)
  have "replicate (length v - 2) CHR ''*'' \<noteq> []" using True by simp
  then have "last m = last (replicate (length v - 2) CHR ''*'')" by (simp add: m_def)
  also have "\<dots> = CHR ''*''" using True by (cases "length v - 2") simp_all
  finally have l: "last m = CHR ''*''" .
  have "m \<noteq> []" using len assms(1) by auto
  then show ?thesis using mv i h l assms(2) by (simp add: not_space_star)
next
  case False
  then have m: "rule v = ''***''" by (simp add: rule_def)
  have "rule ''***'' = ''***''" by (simp add: rule_def)
  then show ?thesis using m by (simp add: not_space_star)
qed

lemma mask_stable_aux:
  assumes eq: "\<And>x. x \<noteq> [] \<Longrightarrow> mask_field_value f x = R x"
    and pr: "R v \<noteq> [] \<and> \<not> is_space (hd (R v)) \<and> \<not> is_space (last (R v)) \<and> R (R v) = R v"
    and v: "v \<noteq> []"
  shows "mask_field_value f v \<noteq> [] \<and> strip (mask_field_value f v) = mask_field_value f v
         \<and> mask_field_value f (mask_field_value f v) = mask_field_value f v"
proof -
  have m: "mask_field_value f v = R v" using v by (rule eq)
  have n: "R v \<noteq> []" using pr by simp
  have i: "mask_field_value f (R v) = R (R v)" using n by (rule eq)
  have s: "strip (R v) = R v" using pr by (simp add: strip_id)
  show ?thesis unfolding m i using n s pr by simp
qed

lemma mask_stable:
  assumes "v \<noteq> []" and "strip v = v"
  shows "mask_field_value f v \<noteq> [] \<and> strip (mask_field_value f v) = mask_field_value f v
         \<and> mask_field_value f (mask_field_value f v) = mask_field_value f v"
proof -
  have ends: "\<not> is_space (hd v)" "\<not> is_space (last v)"
    using strip_fixed_ends [OF assms(2,1)] by simp_all
  consider (email) "str_in ''email'' (lower f)"
    | (phone) "\<not> str_in ''email'' (lower f)"
        "str_in ''phone'' (lower f) \<or> str_in ''telephone'' (lower f)"
    | (name) "\<not> str_in ''email'' (lower f)"
        "\<not> (str_in ''phone'' (lower f) \<or> str_in ''telephone'' (lower f))"
        "str_in ''name'' (lower f)"
    | (address) "\<not> str_in ''email'' (lower f)"
        "\<not> (str_in ''phone'' (lower f) \<or> str_in ''telephone'' (lower f))"
        "\<not> str_in ''name'' (lower f)" "str_in ''address'' (lower f)"
    | (ssn) "\<not> str_in ''email'' (lower f)"
        "\<not> (str_in ''phone'' (lower f) \<or> str_in ''telephone'' (lower f))"
        "\<not> str_in ''name'' (lower f)" "\<not> str_in ''address'' (lower f)"
        "str_in ''ssn'' (lower f) \<or> str_in ''social'' (lower f)"
    | (other) "\<not> str_in ''email'' (lower f)"
        "\<not> (str_in ''phone'' (lower f) \<or> str_in ''telephone'' (lower f))"
        "\<not> str_in ''name'' (lower f)" "\<not> str_in ''address'' (lower f)"
        "\<not> (str_in ''ssn'' (lower f) \<or> str_in ''social'' (lower f))"
    by blast
  then show ?thesis
  proof cases
  case email
  define R :: "string \<Rightarrow> string" where "R = (\<lambda>x. if CHR ''@'' \<in> set x \<and> length (split_on CHR ''@'' x) = 2
           then ''***@'' @ split_on CHR ''@'' x ! 1 else ''***'')"
  have eq: "mask_field_value f x = R x" if "x \<noteq> []" for x
    using that email by (simp add: mask_field_value_def Let_def R_def)
  have pr: "R v \<noteq> [] \<and> \<not> is_space (hd (R v)) \<and> \<not> is_space (last (R v)) \<and> R (R v) = R v"
    unfolding R_def by (rule email_rule [OF assms(1) ends(2)])
  show ?thesis using eq pr assms(1) by (rule mask_stable_aux)
next
  case phone
  define R :: "string \<Rightarrow> string" where "R = (\<lambda>x. let digits = filter is_digit x
           in if length digits \<ge> 4 then ''***-***-'' @ last4 digits else ''***-***-****'')"
  have eq: "mask_field_value f x = R x" if "x \<noteq> []" for x
    using that phone by (simp add: mask_field_value_def Let_def R_def)
  have "filter is_digit ''***-***-'' = []" and "filter is_digit ''***-***-****'' = []"
    and "''***-***-'' \<noteq> []" and "''***-***-****'' \<noteq> []"
    and "\<not> is_space (hd ''***-***-'')" and "\<not> is_space (hd ''***-***-****'')"
    and "\<not> is_space (last ''***-***-****'')"
    by (simp_all add: is_digit_def is_space_def)
  then have pr: "R v \<noteq> [] \<and> \<not> is_space (hd (R v)) \<and> \<not> is_space (last (R v)) \<and> R (R v) = R v"
    unfolding R_def by (rule digits_rule)
  show ?thesis using eq pr assms(1) by (rule mask_stable_aux)
next
  case name
  define R :: "string \<Rightarrow> string" where "R = (\<lambda>x. if length x > 0 then replicate (min (length x) 4) CHR ''*'' else ''****'')"
  have eq: "mask_field_value f x = R x" if "x \<noteq> []" for x
    using that name by (simp add: mask_field_value_def Let_def R_def)
  have pr: "R v \<noteq> [] \<and> \<not> is_space (hd (R v)) \<and> \<not> is_space (last (R v)) \<and> R (R v) = R v"
    unfolding R_def by (rule stars_rule [OF assms(1)])
  show ?thesis using eq pr assms(1) by (rule mask_stable_aux)
next
  case address
  define R :: "string \<Rightarrow> string" where "R = (\<lambda>x. if length x > 5 then take 2 x @ replicate (length x - 2) CHR ''*'' else ''***'')"
  have eq: "mask_field_value f x = R x" if "x \<noteq> []" for x
    using that address by (simp add: mask_field_value_def Let_def R_def)
  have pr: "R v \<noteq> [] \<and> \<not> is_space (hd (R v)) \<and> \<not> is_space (last (R v)) \<and> R (R v) = R v"
    unfolding R_def by (rule address_rule [OF assms(1) ends(1)])
  show ?thesis using eq pr assms(1) by (rule mask_stable_aux)
next
  case ssn
  define R :: "string \<Rightarrow> string" where "R = (\<lambda>x. let digits = filter is_digit x
           in if length digits \<ge> 4 then ''***-**-'' @ last4 digits else ''***-**-****'')"
  have eq: "mask_field_value f x = R x" if "x \<noteq> []" for x
    using that ssn by (simp add: mask_field_value_def Let_def R_def)
  have "filter is_digit ''***-**-'' = []" and "filter is_digit ''***-**-****'' = []"
    and "''***-**-'' \<noteq> []" and "''***-**-****'' \<noteq> []"
    and "\<not> is_space (hd ''***-**-'')" and "\<not> is_space (hd ''***-**-****'')"
    and "\<not> is_space (last ''***-**-****'')"
    by (simp_all add: is_digit_def is_space_def)
  then have pr: "R v \<noteq> [] \<and> \<not> is_space (hd (R v)) \<and> \<not> is_space (last (R v)) \<and> R (R v) = R v"
    unfolding R_def by (rule digits_rule)
  show ?thesis using eq pr assms(1) by (rule mask_stable_aux)
next
  case other
  define R :: "string \<Rightarrow> string" where "R = (\<lambda>x. if length x > 0 then replicate (min (length x) 4) CHR ''*'' else ''****'')"
  have eq: "mask_field_value f x = R x" if "x \<noteq> []" for x
    using that other by (simp add: mask_field_value_def Let_def R_def)
  have pr: "R v \<noteq> [] \<and> \<not> is_space (hd (R v)) \<and> \<not> is_space (last (R v)) \<and> R (R v) = R v"
    unfolding R_def by (rule stars_rule [OF assms(1)])
  show ?thesis using eq pr assms(1) by (rule mask_stable_aux)
  qed
qed

lemma row_line_parts:
  assumes "c \<noteq> []" and "strip c = c" and "CHR '':'' \<notin> set c" and "x \<noteq> []" and "strip x = x"
  shows "split_first CHR '':'' (row_line c x) = [''  '' @ c, '' '' @ x]"
    and "strip (''  '' @ c) = c" and "strip ('' '' @ x) = x"
proof -
  have "CHR '':'' \<notin> set (''  '' @ c)" using assms(3) by simp
  then have "split_first CHR '':'' ((''  '' @ c) @ CHR '':'' # ('' '' @ x)) = [''  '' @ c, '' '' @ x]"
    by (rule split_first_colon)
  then show "split_first CHR '':'' (row_line c x) = [''  '' @ c, '' '' @ x]"
    by (simp add: row_line_def)
  have sp: "\<forall>y\<in>set ''  ''. is_space y" "\<forall>y\<in>set '' ''. is_space y"
    by (simp_all add: is_space_def)
  show "strip (''  '' @ c) = c"
    using strip_spaces_prefix [OF sp(1), of c] assms(2) by simp
  show "strip ('' '' @ x) = x"
    using strip_spaces_prefix [OF sp(2), of x] assms(5) by simp
qed

lemma mask_cols_step:
  assumes "c \<noteq> []" and "strip c = c" and "CHR '':'' \<notin> set c" and "x \<noteq> []" and "strip x = x"
    and "c \<in> pii"
  shows "mask_cols pii (col # cols) (row_line c x, n) =
     (if str_in col (row_line c x)
      then mask_cols pii cols (replace x (mask_field_value c x) (row_line c x),
                               if c \<notin> set n then n @ [c] else n)
      else mask_cols pii cols (row_line c x, n))"
  using row_line_parts [OF assms(1-5)] assms(6) by (simp add: Let_def)

lemma mask_cols_settled:
  assumes "c \<noteq> []" and "strip c = c" and "CHR '':'' \<notin> set c" and "c \<in> pii"
    and "m \<noteq> []" and "strip m = m" and "mask_field_value c m = m" and "c \<in> set n"
  shows "mask_cols pii cols (row_line c m, n) = (row_line c m, n)"
proof (induction cols)
  case Nil
  show ?case by simp
next
  case (Cons col cols)
  have "replace m (mask_field_value c m) (row_line c m) = row_line c m"
    using assms(5,7) by (simp add: replace_same)
  then show ?case
    using Cons.IH assms(8)
    by (simp only: mask_cols_step [OF assms(1,2,3,5,6,4)]) simp
qed

lemma replace_row_line:
  assumes "v \<noteq> []" and "\<not> str_in v (butlast (row_line c v))"
  shows "replace v m (row_line c v) = row_line c m"
proof -
  have "replace v m ((''  '' @ c @ '': '') @ v) = (''  '' @ c @ '': '') @ m"
    using assms by (intro replace_last) (simp_all add: row_line_def)
  then show ?thesis by (simp add: row_line_def)
qed

lemma mask_cols_row_line:
  assumes c: "c \<noteq> []" "strip c = c" "CHR '':'' \<notin> set c" "c \<in> pii"
    and v: "v \<noteq> []" "strip v = v" "\<not> str_in v (butlast (row_line c v))"
  shows "mask_cols pii cols (row_line c v, n) =
     (if list_ex (\<lambda>col. str_in col (row_line c v)) cols
      then (row_line c (mask_field_value c v), if c \<in> set n then n else n @ [c])
      else (row_line c v, n))"
proof (induction cols)
  case Nil
  show ?case by simp
next
  case (Cons col cols)
  note st = mask_stable [OF v(1,2), of c]
  show ?case
  proof (cases "str_in col (row_line c v)")
    case True
    have "c \<in> set (if c \<notin> set n then n @ [c] else n)" by simp
    then have "mask_cols pii cols (row_line c (mask_field_value c v),
                 if c \<notin> set n then n @ [c] else n)
        = (row_line c (mask_field_value c v), if c \<notin> set n then n @ [c] else n)"
      using c st by (intro mask_cols_settled) simp_all
    then show ?thesis
      using True
      by (simp only: mask_cols_step [OF c(1,2,3) v(1,2) c(4)] replace_row_line [OF v(1,3)])
        auto
  next
    case False
    then show ?thesis
      using Cons.IH by (simp only: mask_cols_step [OF c(1,2,3) v(1,2) c(4)]) simp
  qed
qed

lemma mask_cols_fst_indep:
  "fst (mask_cols pii cols (l, n1)) = fst (mask_cols pii cols (l, n2))"
proof (induction cols arbitrary: l n1 n2)
  case Nil
  show ?case by simp
next
  case (Cons col cols)
  show ?case
  proof (cases "str_in col l \<and> length (split_first CHR '':'' l) = 2
                \<and> strip (split_first CHR '':'' l ! 0) \<in> pii")
    case True
    then show ?thesis
      using Cons.IH [of "replace (strip (split_first CHR '':'' l ! 1))
          (mask_field_value (strip (split_first CHR '':'' l ! 0)) (strip (split_first CHR '':'' l ! 1))) l"]
      by (simp add: Let_def)
  next
    case False
    then show ?thesis
      using Cons.IH [of l n1 n2] by (auto simp: Let_def)
  qed
qed

lemma mask_cols_notice_mono: "set n \<subseteq> set (snd (mask_cols pii cols (l, n)))"
proof (induction cols arbitrary: l n)
  case Nil
  show ?case by simp
next
  case (Cons col cols)
  show ?case
  proof (cases "str_in col l \<and> length (split_first CHR '':'' l) = 2
                \<and> strip (split_first CHR '':'' l ! 0) \<in> pii")
    case True
    define l' where "l' = replace (strip (split_first CHR '':'' l ! 1))
          (mask_field_value (strip (split_first CHR '':'' l ! 0)) (strip (split_first CHR '':'' l ! 1))) l"
    define n' where "n' = (if strip (split_first CHR '':'' l ! 0) \<notin> set n
                           then n @ [strip (split_first CHR '':'' l ! 0)] else n)"
    have "mask_cols pii (col # cols) (l, n) = mask_cols pii cols (l', n')"
      using True by (simp add: Let_def l'_def n'_def)
    moreover have "set n \<subseteq> set n'" by (auto simp: n'_def)
    ultimately show ?thesis using Cons.IH [of n' l'] by auto
  next
    case False
    then have "mask_cols pii (col # cols) (l, n) = mask_cols pii cols (l, n)"
      by (auto simp: Let_def)
    then show ?thesis using Cons.IH [of n l] by simp
  qed
qed

lemma protect_lines_Cons:
  "protect_lines pii cols (l # ls) (acc, n) =
     protect_lines pii cols ls (acc @ [fst (protect_line pii cols (l, n))],
                                snd (protect_line pii cols (l, n)))"
  by (simp split: prod.splits)

lemma protect_line_fst_indep:
  "fst (protect_line pii cols (l, n1)) = fst (protect_line pii cols (l, n2))"
  using mask_cols_fst_indep [of pii cols l n1 n2] by (simp add: protect_line_def)

lemma protect_line_notice_mono: "set n \<subseteq> set (snd (protect_line pii cols (l, n)))"
  using mask_cols_notice_mono [of n pii cols l] by (simp add: protect_line_def)

lemma protect_lines_fst:
  "fst (protect_lines pii cols ls (acc, n)) =
     acc @ map (\<lambda>l. fst (protect_line pii cols (l, []))) ls"
proof (induction ls arbitrary: acc n)
  case Nil
  show ?case by simp
next
  case (Cons l ls)
  show ?case
    using protect_line_fst_indep [of pii cols l n "[]"]
    by (simp only: protect_lines_Cons Cons.IH) simp
qed

lemma protect_lines_notice_mono: "set n \<subseteq> set (snd (protect_lines pii cols ls (acc, n)))"
proof (induction ls arbitrary: acc n)
  case Nil
  show ?case by simp
next
  case (Cons l ls)
  have "set n \<subseteq> set (snd (protect_line pii cols (l, n)))"
    by (rule protect_line_notice_mono)
  also have "\<dots> \<subseteq> set (snd (protect_lines pii cols ls
        (acc @ [fst (protect_line pii cols (l, n))], snd (protect_line pii cols (l, n)))))"
    by (rule Cons.IH)
  finally show ?case by (simp only: protect_lines_Cons)
qed

lemma protect_lines_notice_at:
  assumes "i < length ls" and "c \<in> set (snd (protect_line pii cols (ls ! i, n)))" 
    and "\<And>n1 n2. c \<in> set (snd (protect_line pii cols (ls ! i, n1))) 
            \<Longrightarrow> c \<in> set (snd (protect_line pii cols (ls ! i, n2)))"
  shows "c \<in> set (snd (protect_lines pii cols ls (acc, n)))"
  using assms
proof (induction ls arbitrary: i acc n)
  case Nil
  then show ?case by simp
next
  case (Cons l ls)
  show ?case
  proof (cases i)
    case 0
    then have "c \<in> set (snd (protect_line pii cols (l, n)))"
      using Cons.prems(2) by simp
    then show ?thesis
      using protect_lines_notice_mono [of "snd (protect_line pii cols (l, n))" pii cols ls
          "acc @ [fst (protect_line pii cols (l, n))]"]
      by (simp only: protect_lines_Cons) blast
  next
    case (Suc j)
    then have j: "j < length ls" using Cons.prems(1) by simp
    have a: "c \<in> set (snd (protect_line pii cols (ls ! j, snd (protect_line pii cols (l, n)))))"
      using Cons.prems(2,3) Suc by (metis nth_Cons_Suc)
    have b: "\<And>n1 n2. c \<in> set (snd (protect_line pii cols (ls ! j, n1)))
            \<Longrightarrow> c \<in> set (snd (protect_line pii cols (ls ! j, n2)))"
      using Cons.prems(3) Suc by (metis nth_Cons_Suc)
    show ?thesis
      using Cons.IH [OF j a b] by (simp only: protect_lines_Cons)
  qed
qed

lemma not_pii_empty: "\<not> is_pii_field []"
  by (simp add: is_pii_field_def strip_def lower_def pii_patterns_def)

lemma protect_line_row_line:
  assumes c: "c \<in> set cols" "c \<noteq> []" "strip c = c" "CHR '':'' \<notin> set c" "c \<in> pii"
    and v: "v \<noteq> []" "strip v = v" "\<not> str_in v (butlast (row_line c v))"
  shows "protect_line pii cols (row_line c v, n) =
           (row_line c (mask_field_value c v), if c \<in> set n then n else n @ [c])"
proof -
  have colon: "CHR '':'' \<in> set (row_line c v)"
    by (simp add: row_line_def)
  have "str_in c (row_line c v)"
    unfolding row_line_def by (rule str_in_append)
  then have ex: "list_ex (\<lambda>col. str_in col (row_line c v)) cols"
    using c(1) by (auto simp: list_ex_iff)
  show ?thesis
    using colon ex mask_cols_row_line [OF c(2,3,4,5) v, of cols n]
    by (simp add: protect_line_def)
qed

text \<open>The coordinator hands a database result with detected PII columns to the PII tool
  it finds among the function tools, with the column list written by \<open>str\<close>.\<close>

lemma coordinator_runs_pii_tool:
  assumes "str_in ''database_query_tool'' name" and "extract_columns lit result = Some cols"
    and "cols \<noteq> []" and "coord_detect_pii_fields cols \<noteq> {}"
    and "find_pii_tool fts = Some t"
    and "run_kw t result (repr_list cols) = Inr protected_result"
  shows "check_and_apply_pii_protection lit fts name (Str result) = protected_result"
  using assms by (simp add: check_and_apply_pii_protection_def)

text \<open>
  C1 (as amended). Let the column \<open>c\<close> be detected as PII, with no colon in its name and no
  white space around it, and let line \<open>i\<close> of the database results be the cell line
  \<open>row_line c v\<close> of a value \<open>v\<close> that is not empty, has no white space around it and
  does not occur earlier in that line. Then the text returned by the PII tool has at line
  \<open>i\<close> the cell line of the masked value, and its notice names \<open>c\<close>. The masks keep
  parts of the value on purpose, and other lines, such as the echoed SQL statement, are not
  searched for the value.
\<close>

theorem C1_row_line_masked:
  assumes cols: "parse_column_names lit column_names = cols"
    and c: "c \<in> detect_pii_fields cols" "strip c = c" "CHR '':'' \<notin> set c"
    and v: "v \<noteq> []" "strip v = v" "\<not> str_in v (butlast (row_line c v))"
    and i: "i < length (split_on CHR 0x0A database_results)"
      "split_on CHR 0x0A database_results ! i = row_line c v"
  shows "\<exists>out_lines notice.
           pii_protection_tool lit database_results column_names
             = join nl out_lines @ pii_notice notice
         \<and> length out_lines = length (split_on CHR 0x0A database_results)
         \<and> out_lines ! i = row_line c (mask_field_value c v)
         \<and> c \<in> set notice"
proof -
  define pii where "pii = detect_pii_fields cols"
  define ls where "ls = split_on CHR 0x0A database_results"
  define res where "res = protect_lines pii cols ls ([], [])"
  have cin: "c \<in> set cols" and cp: "is_pii_field c"
    using c(1) by (simp_all add: detect_pii_fields_def)
  have cne: "c \<noteq> []" using cp not_pii_empty by auto
  have cpii: "c \<in> pii" using c(1) by (simp add: pii_def)
  note pl = protect_line_row_line [OF cin cne c(2,3) cpii v]
  have f: "fst res = map (\<lambda>l. fst (protect_line pii cols (l, []))) ls"
    using protect_lines_fst [of pii cols ls "[]" "[]"] by (simp add: res_def)
  have len: "length (fst res) = length ls" using f by simp
  have ith: "fst res ! i = row_line c (mask_field_value c v)"
    using f i pl [of "[]"] by (simp add: ls_def)
  have "c \<in> set (snd (protect_lines pii cols ls ([], [])))"
  proof (rule protect_lines_notice_at)
    show "i < length ls" using i(1) by (simp add: ls_def)
    show "c \<in> set (snd (protect_line pii cols (ls ! i, [])))"
      using i(2) pl [of "[]"] by (simp add: ls_def)
    show "\<And>n1 n2. c \<in> set (snd (protect_line pii cols (ls ! i, n1)))
            \<Longrightarrow> c \<in> set (snd (protect_line pii cols (ls ! i, n2)))"
      using i(2) pl by (simp add: ls_def)
  qed
  then have nin: "c \<in> set (snd res)" by (simp add: res_def)
  then have nne: "snd res \<noteq> []" by auto
  have "pii \<noteq> {}" using cpii by auto
  then have "pii_protection_tool lit database_results column_names
      = join nl (fst res) @ pii_notice (snd res)"
    using nne cols
    by (cases res)
      (simp add: pii_protection_tool_def Let_def pii_def [symmetric] ls_def [symmetric]
        res_def [symmetric])
  then show ?thesis using len ith nin ls_def by blast
qed

theorem C1_row_line_masked_witness:
  "parse_column_names read_str_list (repr_list [''id'', ''phone'']) = [''id'', ''phone'']
   \<and> ''phone'' \<in> detect_pii_fields [''id'', ''phone'']
   \<and> strip ''phone'' = ''phone'' \<and> CHR '':'' \<notin> set ''phone''
   \<and> ''555-123-4567'' \<noteq> [] \<and> strip ''555-123-4567'' = ''555-123-4567''
   \<and> \<not> str_in ''555-123-4567'' (butlast (row_line ''phone'' ''555-123-4567''))
   \<and> 7 < length (split_on CHR 0x0A
              (format_result ''SELECT id, phone FROM customers'' [''id'', ''phone'']
                 [make_row_dict [''id'', ''phone''] [''1'', ''555-123-4567'']]))
   \<and> split_on CHR 0x0A
         (format_result ''SELECT id, phone FROM customers'' [''id'', ''phone'']
            [make_row_dict [''id'', ''phone''] [''1'', ''555-123-4567'']]) ! 7
       = row_line ''phone'' ''555-123-4567''
   \<and> (\<exists>out_lines notice.
         pii_protection_tool read_str_list
           (format_result ''SELECT id, phone FROM customers'' [''id'', ''phone'']
              [make_row_dict [''id'', ''phone''] [''1'', ''555-123-4567'']])
           (repr_list [''id'', ''phone''])
           = join nl out_lines @ pii_notice notice
         \<and> out_lines ! 7 = ''  phone: ***-***-4567''
         \<and> ''phone'' \<in> set notice)"
proof -
  let ?r = "format_result ''SELECT id, phone FROM customers'' [''id'', ''phone'']
              [make_row_dict [''id'', ''phone''] [''1'', ''555-123-4567'']]"
  have h1: "parse_column_names read_str_list (repr_list [''id'', ''phone'']) = [''id'', ''phone'']"
    by code_simp
  have h2: "''phone'' \<in> detect_pii_fields [''id'', ''phone'']"
    by code_simp
  have h3: "strip ''phone'' = ''phone''"
    by code_simp
  have h4: "CHR '':'' \<notin> set ''phone''"
    by simp
  have h5: "''555-123-4567'' \<noteq> []"
    by simp
  have h6: "strip ''555-123-4567'' = ''555-123-4567''"
    by code_simp
  have h7: "\<not> str_in ''555-123-4567'' (butlast (row_line ''phone'' ''555-123-4567''))"
    by code_simp
  have h8: "7 < length (split_on CHR 0x0A ?r)"
    by code_simp
  have h9: "split_on CHR 0x0A ?r ! 7 = row_line ''phone'' ''555-123-4567''"
    by code_simp
  have m: "row_line ''phone'' (mask_field_value ''phone'' ''555-123-4567'') = ''  phone: ***-***-4567''"
    by code_simp
  have "\<exists>out_lines notice.
         pii_protection_tool read_str_list ?r (repr_list [''id'', ''phone''])
           = join nl out_lines @ pii_notice notice
         \<and> out_lines ! 7 = ''  phone: ***-***-4567''
         \<and> ''phone'' \<in> set notice"
    using C1_row_line_masked [OF h1 h2 h3 h4 h5 h6 h7 h8 h9] unfolding m by blast
  with h1 h2 h3 h4 h5 h6 h7 h8 h9 show ?thesis by blast
qed

text \<open>
  C1 as the specification words it fails. A phone value of four digits is its own last
  four digits, so the masked line still shows it; and a name that the generated SQL
  statement mentions stays in the echoed statement although its cell is masked.
\<close>

theorem C1_raw_value_counterexample:
  "''phone'' \<in> detect_pii_fields [''id'', ''phone'']
   \<and> str_in ''4567''
        (str_of (check_and_apply_pii_protection read_str_list [pii_tool_of read_str_list]
           ''database_query_tool''
           (Str (format_result ''SELECT id, phone FROM customers'' [''id'', ''phone'']
              [make_row_dict [''id'', ''phone''] [''1'', ''4567'']]))))
   \<and> ''first_name'' \<in> detect_pii_fields [''first_name'']
   \<and> str_in ''John''
        (str_of (check_and_apply_pii_protection read_str_list [pii_tool_of read_str_list]
           ''database_query_tool''
           (Str (format_result
              (''SELECT first_name FROM customers WHERE first_name = '' @ [CHR 0x27] @ ''John''
               @ [CHR 0x27])
              [''first_name''] [make_row_dict [''first_name''] [''John'']]))))"
  by code_simp

end
